theory Spec2Isabelle
  imports Main "HOL-Library.Word"
begin

unbundle bit_operations_syntax

section \<open>The compiler's view of the program (the type resolution oracle)\<close>

text \<open>
  AstSymbolTable (src/unnamed/part_000) works on objects of the TypeScript compiler API:
  \<open>ts.Symbol\<close>, \<open>ts.Node\<close> and \<open>ts.SourceFile\<close>. They are compared by object identity, so
  each is a handle here. A source file is itself a node.
\<close>

type_synonym symbol = nat

type_synonym node = nat

text \<open>The syntax kinds the table distinguishes; every other kind is \<open>OtherKind k\<close>.\<close>

datatype SyntaxKind =
    SourceFile
  | ExportDeclaration
  | ExportSpecifier
  | JSDocComment
  | TypeReference
  | ExpressionWithTypeArguments
  | ComputedPropertyName
  | Identifier
  | OtherKind nat

text \<open>The bits of \<open>ts.SymbolFlags\<close> that the table tests.\<close>

definition TypeLiteral :: "32 word" where "TypeLiteral = push_bit 11 1"

definition TypeParameter :: "32 word" where "TypeParameter = push_bit 18 1"

definition Alias :: "32 word" where "Alias = push_bit 21 1"

definition Transient :: "32 word" where "Transient = push_bit 25 1"

text \<open>\<open>IAstImportOptions\<close>, the two fields of an import identity.\<close>

record AstImportOptions =
  exportName :: string
  modulePath :: string

text \<open>
  Everything the table asks of the compiler and of its helper classes
  (\<open>ts.Program\<close>, \<open>ts.TypeChecker\<close>, \<open>TypeScriptHelpers\<close>, \<open>SymbolAnalyzer\<close>,
  \<open>PackageMetadataManager\<close>) is a query on an immutable program. The helper classes are not
  among the sources, so their queries are parameters of the model, one field each:

  \<^item> \<open>symbolFlags\<close>, \<open>symbolName\<close>, \<open>symbolEscapedName\<close>, \<open>symbolDeclarations\<close>
    (\<open>undefined\<close> and the empty array are both \<open>[]\<close>: the code treats them alike),
    \<open>symbolExports\<close> (\<open>None\<close> when \<open>symbol.exports\<close> is undefined);
  \<open>nodeKind\<close>, \<open>nodeChildren\<close> (\<open>getChildren()\<close>), \<open>nodeSourceFile\<close>
    (\<open>getSourceFile()\<close>), \<open>nodeText\<close> (\<open>getText()\<close>), \<open>sourceFileName\<close>;
  \<^item> \<open>nodeAncestors n\<close>: the chain \<open>n.parent\<close>, \<open>n.parent.parent\<close>, ... up to the root
    of the syntax tree, nearest first (the syntax tree is a finite tree);
  \<^item> \<open>propertyNameText n\<close> and \<open>nameText n\<close>: the trimmed text of an export specifier's
    \<open>propertyName\<close> (\<open>None\<close> when it has none) and of its \<open>name\<close>;
  \<^item> \<open>findFirstParent\<close> and \<open>findFirstChildNode\<close> of \<open>TypeScriptHelpers\<close>, by the kind they
    look for;
  \<^item> \<open>importedOfNew\<close>: the value of \<open>AstSymbol.imported\<close> for a node under construction,
    from its \<open>astImport\<close> and from the \<open>imported\<close> value of its parent node, if it has one
    (class AstSymbol is not among the sources; the table only reads the property).
\<close>

record tsProgram =
  symbolFlags :: "symbol \<Rightarrow> 32 word"
  symbolName :: "symbol \<Rightarrow> string"
  symbolEscapedName :: "symbol \<Rightarrow> string"
  symbolDeclarations :: "symbol \<Rightarrow> node list"
  symbolExports :: "symbol \<Rightarrow> symbol list option"
  nodeKind :: "node \<Rightarrow> SyntaxKind"
  nodeAncestors :: "node \<Rightarrow> node list"
  nodeChildren :: "node \<Rightarrow> node list"
  nodeSourceFile :: "node \<Rightarrow> node"
  nodeText :: "node \<Rightarrow> string"
  sourceFileName :: "node \<Rightarrow> string"
  propertyNameText :: "node \<Rightarrow> string option"
  nameText :: "node \<Rightarrow> string"
  isAmbient :: "symbol \<Rightarrow> bool"
  isAstDeclaration :: "SyntaxKind \<Rightarrow> bool"
  isAedocSupportedFor :: "string \<Rightarrow> bool"
  getSymbolForDeclaration :: "node \<Rightarrow> symbol option"
  followAliases :: "symbol \<Rightarrow> symbol"
  getImmediateAliasedSymbol :: "symbol \<Rightarrow> symbol option"
  getExportsOfModule :: "symbol \<Rightarrow> symbol list"
  getSymbolAtLocation :: "node \<Rightarrow> symbol option"
  findFirstParent :: "node \<Rightarrow> SyntaxKind \<Rightarrow> node option"
  findFirstChildNode :: "node \<Rightarrow> SyntaxKind \<Rightarrow> node option"
  getModuleSpecifier :: "node \<Rightarrow> string option"
  getResolvedModule :: "node \<Rightarrow> string \<Rightarrow> string option"
  getSourceFile :: "string \<Rightarrow> node option"
  isExternalModuleNameRelative :: "string \<Rightarrow> bool"
  importedOfNew :: "AstImportOptions option \<Rightarrow> bool option \<Rightarrow> bool"

section \<open>The objects of the table\<close>

text \<open>
  AstSymbol, AstDeclaration and AstModule objects are compared by identity and mutated in
  place, so the table holds a store for each class: a handle is the index the object got
  when it was constructed, and \<open>nextAstSymbol\<close> etc. count the objects constructed so far.
\<close>

type_synonym AstSymbolRef = nat

type_synonym AstDeclarationRef = nat

type_synonym AstModuleRef = nat

text \<open>
  Modelled from the spec: class AstSymbol (the Symbol Node) is not among the sources. Its
  fields are the parameters of the constructor call in \<open>_fetchAstSymbol\<close> and the attributes
  of the spec's data model. \<open>rootAstSymbol\<close> is the parent's root, or the node itself if it
  has no parent. \<open>imported\<close> is fixed when the node is constructed. \<open>analyzedFlag\<close> is the flag
  that \<open>_notifyAnalyzed\<close> sets; analysis works at the granularity of the root (see
  \<open>analyzed\<close> below).
\<close>

record AstSymbol =
  localName :: string
  followedSymbol :: symbol
  astImport :: "AstImportOptions option"
  parentAstSymbol :: "AstSymbolRef option"
  rootAstSymbol :: AstSymbolRef
  nominal :: bool
  imported :: bool
  analyzedFlag :: bool
  astDeclarations :: "AstDeclarationRef list"

text \<open>
  Modelled from the spec: class AstDeclaration (the Declaration Node) is not among the
  sources. It wraps one syntactic declaration, belongs to one Symbol Node, has an optional
  parent Declaration Node and child links, and accumulates the set of referenced symbols
  (kept in insertion order, without duplicates).
\<close>

record AstDeclaration =
  declarationNode :: node
  astSymbol :: AstSymbolRef
  parent :: "AstDeclarationRef option"
  children :: "AstDeclarationRef list"
  referencedAstSymbols :: "AstSymbolRef list"

text \<open>
  Modelled from the spec: class AstModule (the Module Registry Entry) is not among the
  sources: the source module, the external path, the exported-name table, and the set of
  wildcard re-exported modules (in insertion order, without duplicates).
\<close>

record AstModule =
  sourceFile :: node
  externalModulePath :: "string option"
  exportedSymbols :: "string \<rightharpoonup> AstSymbolRef"
  starExportedModules :: "AstModuleRef list"

text \<open>
  The state of an AstSymbolTable: its four caches and the three object stores.
  Modelled from the spec: \<open>AstImport.key\<close> (class AstImport is not among the sources): two
  import identities are equal iff both fields match, so the key is the pair of fields.
\<close>

record AstSymbolTable =
  astSymbolsBySymbol :: "symbol \<rightharpoonup> AstSymbolRef"
  astDeclarationsByDeclaration :: "node \<rightharpoonup> AstDeclarationRef"
  astSymbolsByImportKey :: "(string \<times> string) \<rightharpoonup> AstSymbolRef"
  astModulesBySourceFile :: "node \<rightharpoonup> AstModuleRef"
  astSymbols :: "AstSymbolRef \<Rightarrow> AstSymbol"
  nextAstSymbol :: nat
  astDeclarationObjs :: "AstDeclarationRef \<Rightarrow> AstDeclaration"
  nextAstDeclaration :: nat
  astModules :: "AstModuleRef \<Rightarrow> AstModule"
  nextAstModule :: nat

definition key :: "AstImportOptions \<Rightarrow> string \<times> string" where
  "key i = (modulePath i, exportName i)"

text \<open>Every \<open>throw\<close> of the source is a value; \<open>OutOfFuel\<close> stands for a run that does not return.\<close>

datatype error =
    UnsupportedExport string
  | UnimplementedExportDeclarationKind string
  | UnableToAnalyzeExport string
  | CouldNotResolveModuleName string
  | FailedToLocate string
  | SymbolNotFoundForIdentifier string
  | UnableToFindConstructedAstDeclaration
  | UnableToFindSymbolForNode
  | FollowedSymbolWithNoDeclarations
  | UnimplementedLanguageFeature string SyntaxKind
  | UnableToConstructParent string
  | MissingParentDeclaration
  | MissingParentAstDeclaration
  | ImportedAfterNonImported string
  | TypeError
  | OutOfFuel

text \<open>The throws of class \<open>InternalError\<close> (the others are plain \<open>Error\<close>s or crashes).\<close>

fun isInternalError :: "error \<Rightarrow> bool" where
  "isInternalError (UnableToAnalyzeExport _) = True"
| "isInternalError (CouldNotResolveModuleName _) = True"
| "isInternalError (FailedToLocate _) = True"
| "isInternalError UnableToFindConstructedAstDeclaration = True"
| "isInternalError UnableToFindSymbolForNode = True"
| "isInternalError FollowedSymbolWithNoDeclarations = True"
| "isInternalError (UnimplementedLanguageFeature _ _) = True"
| "isInternalError (UnableToConstructParent _) = True"
| "isInternalError MissingParentDeclaration = True"
| "isInternalError MissingParentAstDeclaration = True"
| "isInternalError (ImportedAfterNonImported _) = True"
| "isInternalError _ = False"

section \<open>Constructing symbols: \<open>_fetchAstSymbol\<close>\<close>

text \<open>\<open>_tryFindFirstAstDeclarationParent\<close>: the first parent satisfying isAstDeclaration().\<close>

definition tryFindFirstAstDeclarationParent :: "tsProgram \<Rightarrow> node \<Rightarrow> node option" where
  "tryFindFirstAstDeclarationParent O' n =
     find (\<lambda>currentNode. isAstDeclaration O' (nodeKind O' currentNode)) (nodeAncestors O' n)"

text \<open>
  Modelled from the spec: \<open>new AstDeclaration({declaration, astSymbol, parent})\<close>. The new
  Declaration Node joins the list of declarations of its Symbol Node and the children of
  its parent Declaration Node.
\<close>

definition newAstDeclaration ::
  "node \<Rightarrow> AstSymbolRef \<Rightarrow> AstDeclarationRef option \<Rightarrow> AstSymbolTable
     \<Rightarrow> AstDeclarationRef \<times> AstSymbolTable" where
  "newAstDeclaration decl s p t =
     (let d = nextAstDeclaration t;
          obj = \<lparr> declarationNode = decl, astSymbol = s, parent = p, children = [],
                  referencedAstSymbols = [] \<rparr>;
          objs1 = (astDeclarationObjs t)(d := obj);
          objs2 = (case p of
                     None \<Rightarrow> objs1
                   | Some pd \<Rightarrow> objs1(pd := (objs1 pd)\<lparr> children := children (objs1 pd) @ [d] \<rparr>));
          syms = (astSymbols t)(s := (astSymbols t s)
                    \<lparr> astDeclarations := astDeclarations (astSymbols t s) @ [d] \<rparr>)
      in (d, t\<lparr> astDeclarationObjs := objs2, nextAstDeclaration := Suc d, astSymbols := syms \<rparr>))"

text \<open>
  The second loop of \<open>_fetchAstSymbol\<close> (lines 544-564): one AstDeclaration per declaration
  of the followed symbol, wired to its parent AstDeclaration.
\<close>

fun createAstDeclarations ::
  "tsProgram \<Rightarrow> AstSymbolRef \<Rightarrow> AstSymbolRef option \<Rightarrow> node list \<Rightarrow> AstSymbolTable
     \<Rightarrow> error + AstSymbolTable" where
  "createAstDeclarations O' s parentAstSymbol' [] t = Inr t"
| "createAstDeclarations O' s parentAstSymbol' (decl # decls) t =
     (case (case parentAstSymbol' of
              None \<Rightarrow> Inr None
            | Some _ \<Rightarrow>
                (case tryFindFirstAstDeclarationParent O' decl of
                   None \<Rightarrow> Inl MissingParentDeclaration
                 | Some parentDeclaration \<Rightarrow>
                     (case astDeclarationsByDeclaration t parentDeclaration of
                        None \<Rightarrow> Inl MissingParentAstDeclaration
                      | Some pd \<Rightarrow> Inr (Some pd)))) of
        Inl e \<Rightarrow> Inl e
      | Inr parentAstDeclaration \<Rightarrow>
          (let (d, t1) = newAstDeclaration decl s parentAstDeclaration t
           in createAstDeclarations O' s parentAstSymbol' decls
                (t1\<lparr> astDeclarationsByDeclaration :=
                       (astDeclarationsByDeclaration t1)(decl \<mapsto> d) \<rparr>)))"

text \<open>The import-consistency check that ends \<open>_fetchAstSymbol\<close> (lines 568-580).\<close>

definition importCheck ::
  "AstImportOptions option \<Rightarrow> AstSymbolRef \<Rightarrow> AstSymbolTable
     \<Rightarrow> error + (AstSymbolRef option \<times> AstSymbolTable)" where
  "importCheck astImportOptions a t =
     (if astImportOptions \<noteq> None \<and> \<not> imported (astSymbols t a)
      then Inl (ImportedAfterNonImported (localName (astSymbols t a)))
      else Inr (Some a, t))"

text \<open>The filter on the symbol's flags (line 432).\<close>

definition filteredFlags :: "tsProgram \<Rightarrow> symbol \<Rightarrow> bool" where
  "filteredFlags O' s =
     (symbolFlags O' s AND (TypeParameter OR TypeLiteral OR Transient) \<noteq> 0)"

text \<open>
  The decision whether a new node is nominal (lines 463-487): the symbol is a source file
  acting as a module, or it is imported from a package that does not support AEDoc.
\<close>

definition isNominal :: "tsProgram \<Rightarrow> AstImportOptions option \<Rightarrow> node \<Rightarrow> node list \<Rightarrow> bool" where
  "isNominal O' astImport' decl0 rest =
     ((rest = [] \<and> nodeKind O' decl0 = SourceFile)
      \<or> (astImport' \<noteq> None
         \<and> \<not> isAedocSupportedFor O' (sourceFileName O' (nodeSourceFile O' decl0))))"

text \<open>
  \<open>new AstSymbol({...})\<close> and its registration in the caches (lines 526-540).
  Modelled from the spec: the constructor of AstSymbol (not among the sources) takes the
  parent's root as root, or the node itself; the node is not analyzed and has no
  declarations yet.
\<close>

definition newAstSymbol ::
  "tsProgram \<Rightarrow> symbol \<Rightarrow> AstImportOptions option \<Rightarrow> AstSymbolRef option \<Rightarrow> bool
     \<Rightarrow> AstSymbolTable \<Rightarrow> AstSymbolRef \<times> AstSymbolTable" where
  "newAstSymbol O' followedSymbol' astImport' parentAstSymbol' nominal' t =
     (let a = nextAstSymbol t;
          obj = \<lparr> localName = symbolName O' followedSymbol',
                  followedSymbol = followedSymbol',
                  astImport = astImport',
                  parentAstSymbol = parentAstSymbol',
                  rootAstSymbol =
                    (case parentAstSymbol' of
                       None \<Rightarrow> a
                     | Some p \<Rightarrow> rootAstSymbol (astSymbols t p)),
                  nominal = nominal',
                  imported =
                    importedOfNew O' astImport'
                      (map_option (\<lambda>p. imported (astSymbols t p)) parentAstSymbol'),
                  analyzedFlag = False,
                  astDeclarations = [] \<rparr>;
          t2 = t\<lparr> astSymbols := (astSymbols t)(a := obj),
                  nextAstSymbol := Suc a,
                  astSymbolsBySymbol := (astSymbolsBySymbol t)(followedSymbol' \<mapsto> a) \<rparr>
      in (a, (case astImport' of
                None \<Rightarrow> t2
              | Some i \<Rightarrow>
                  t2\<lparr> astSymbolsByImportKey := (astSymbolsByImportKey t2)(key i \<mapsto> a) \<rparr>)))"

text \<open>
  Lines 526-580: the new node, its declarations, and the final check. A nominal node has no
  parent, so its declarations are created without parent links.
\<close>

definition constructAstSymbol ::
  "tsProgram \<Rightarrow> symbol \<Rightarrow> AstImportOptions option \<Rightarrow> AstSymbolRef option \<Rightarrow> bool
     \<Rightarrow> AstSymbolTable \<Rightarrow> error + (AstSymbolRef option \<times> AstSymbolTable)" where
  "constructAstSymbol O' followedSymbol' astImportOptions parentAstSymbol' nominal' t =
     (let (a, t3) = newAstSymbol O' followedSymbol' astImportOptions parentAstSymbol' nominal' t
      in
      (case createAstDeclarations O' a parentAstSymbol'
              (symbolDeclarations O' followedSymbol') t3 of
         Inl e \<Rightarrow> Inl e
       | Inr t4 \<Rightarrow> importCheck astImportOptions a t4))"

text \<open>
  \<open>_fetchAstSymbol\<close> (lines 428-581). It calls itself for the parent symbol; nothing in the
  code bounds that chain, so the model takes fuel, one unit per nested call.
\<close>

fun fetchAstSymbol ::
  "nat \<Rightarrow> tsProgram \<Rightarrow> symbol \<Rightarrow> bool \<Rightarrow> AstImportOptions option \<Rightarrow> AstSymbolTable
     \<Rightarrow> error + (AstSymbolRef option \<times> AstSymbolTable)" where
  "fetchAstSymbol 0 O' followedSymbol' addIfMissing astImportOptions t = Inl OutOfFuel"
| "fetchAstSymbol (Suc fuel) O' followedSymbol' addIfMissing astImportOptions t =
     (if filteredFlags O' followedSymbol' then Inr (None, t)
      else if isAmbient O' followedSymbol' then Inr (None, t)
      else
        (case astSymbolsBySymbol t followedSymbol' of
           Some a \<Rightarrow> importCheck astImportOptions a t
         | None \<Rightarrow>
            (case symbolDeclarations O' followedSymbol' of
               [] \<Rightarrow> Inl FollowedSymbolWithNoDeclarations
             | decl0 # rest \<Rightarrow>
                (case (case astImportOptions of
                         None \<Rightarrow> None
                       | Some i \<Rightarrow> astSymbolsByImportKey t (key i)) of
                   Some a \<Rightarrow>
                     importCheck astImportOptions a
                       (t\<lparr> astSymbolsBySymbol := (astSymbolsBySymbol t)(followedSymbol' \<mapsto> a) \<rparr>)
                 | None \<Rightarrow>
                    if isNominal O' astImportOptions decl0 rest
                    then constructAstSymbol O' followedSymbol' astImportOptions None True t
                    else
                     (case find (\<lambda>d. \<not> isAstDeclaration O' (nodeKind O' d)) (decl0 # rest) of
                        Some d \<Rightarrow>
                          Inl (UnimplementedLanguageFeature
                                 (symbolName O' followedSymbol') (nodeKind O' d))
                      | None \<Rightarrow>
                         (case tryFindFirstAstDeclarationParent O' decl0 of
                            None \<Rightarrow>
                              constructAstSymbol O' followedSymbol' astImportOptions None False t
                          | Some arbitaryParentDeclaration \<Rightarrow>
                             (case getSymbolForDeclaration O' arbitaryParentDeclaration of
                                None \<Rightarrow> Inl TypeError
                              | Some parentSymbol \<Rightarrow>
                                 (case fetchAstSymbol fuel O' parentSymbol addIfMissing None t of
                                    Inl e \<Rightarrow> Inl e
                                  | Inr (None, t1) \<Rightarrow>
                                      Inl (UnableToConstructParent
                                             (symbolName O' followedSymbol'))
                                  | Inr (Some p, t1) \<Rightarrow>
                                      constructAstSymbol O' followedSymbol' astImportOptions
                                        (Some p) False t1))))))))"

text \<open>\<open>tryGetAstSymbol\<close> (lines 329-331).\<close>

definition tryGetAstSymbol ::
  "nat \<Rightarrow> tsProgram \<Rightarrow> symbol \<Rightarrow> AstSymbolTable \<Rightarrow> error + (AstSymbolRef option \<times> AstSymbolTable)" where
  "tryGetAstSymbol fuel O' symbol' t = fetchAstSymbol fuel O' symbol' False None t"

section \<open>Modules: \<open>fetchAstModuleBySourceFile\<close>\<close>

text \<open>\<open>ts.InternalSymbolName.ExportStar\<close>.\<close>

definition ExportStar :: string where
  "ExportStar = ''__export''"

text \<open>
  \<open>_tryGetExportOfAstModule\<close> (lines 207-229). The set of visited modules is mutated in
  place and shared by the whole lookup, so it is passed along and returned. The loop over
  \<open>starExportedModules\<close> is \<open>tryStarExports\<close>; \<open>tryGet\<close> is the recursive call.
\<close>

fun tryStarExports ::
  "(AstModuleRef \<Rightarrow> AstModuleRef set \<Rightarrow> error + (AstSymbolRef option \<times> AstModuleRef set))
     \<Rightarrow> AstModuleRef list \<Rightarrow> AstModuleRef set
     \<Rightarrow> error + (AstSymbolRef option \<times> AstModuleRef set)" where
  "tryStarExports tryGet [] visitedAstModules = Inr (None, visitedAstModules)"
| "tryStarExports tryGet (starExportedModule # ms) visitedAstModules =
     (case tryGet starExportedModule visitedAstModules of
        Inl e \<Rightarrow> Inl e
      | Inr (Some a, visited1) \<Rightarrow> Inr (Some a, visited1)
      | Inr (None, visited1) \<Rightarrow> tryStarExports tryGet ms visited1)"

primrec tryGetExportOfAstModule ::
  "nat \<Rightarrow> AstSymbolTable \<Rightarrow> string \<Rightarrow> AstModuleRef \<Rightarrow> AstModuleRef set
     \<Rightarrow> error + (AstSymbolRef option \<times> AstModuleRef set)" where
  "tryGetExportOfAstModule 0 t exportName' astModule visitedAstModules = Inl OutOfFuel"
| "tryGetExportOfAstModule (Suc fuel) t exportName' astModule visitedAstModules =
     (if astModule \<in> visitedAstModules then Inr (None, visitedAstModules)
      else
        (case exportedSymbols (astModules t astModule) exportName' of
           Some a \<Rightarrow> Inr (Some a, insert astModule visitedAstModules)
         | None \<Rightarrow>
             tryStarExports (tryGetExportOfAstModule fuel t exportName')
               (starExportedModules (astModules t astModule))
               (insert astModule visitedAstModules)))"

text \<open>\<open>_getExportOfAstModule\<close> (lines 198-205).\<close>

definition getExportOfAstModule ::
  "nat \<Rightarrow> AstSymbolTable \<Rightarrow> string \<Rightarrow> AstModuleRef \<Rightarrow> error + AstSymbolRef" where
  "getExportOfAstModule fuel t exportName' astModule =
     (case tryGetExportOfAstModule fuel t exportName' astModule {} of
        Inl e \<Rightarrow> Inl e
      | Inr (None, _) \<Rightarrow> Inl (UnableToAnalyzeExport exportName')
      | Inr (Some a, _) \<Rightarrow> Inr a)"

text \<open>
  The functions below call \<open>fetchAstModuleBySourceFile\<close> back; that call is their first
  parameter \<open>fetchModule\<close>.
\<close>

type_synonym fetchModuleFn =
  "node \<Rightarrow> string option \<Rightarrow> AstSymbolTable \<Rightarrow> error + (AstModuleRef \<times> AstSymbolTable)"

text \<open>\<open>_fetchSpecifierAstModule\<close> (lines 245-275). An empty specifier is falsy.\<close>

definition fetchSpecifierAstModule ::
  "fetchModuleFn \<Rightarrow> tsProgram \<Rightarrow> node \<Rightarrow> AstSymbolTable
     \<Rightarrow> error + (AstModuleRef option \<times> AstSymbolTable)" where
  "fetchSpecifierAstModule fetchModule O' exportStarDeclaration t =
     (case getModuleSpecifier O' exportStarDeclaration of
        None \<Rightarrow> Inr (None, t)
      | Some moduleSpecifier \<Rightarrow>
         if moduleSpecifier = [] then Inr (None, t)
         else
          (case getResolvedModule O' (nodeSourceFile O' exportStarDeclaration) moduleSpecifier of
             None \<Rightarrow> Inl (CouldNotResolveModuleName moduleSpecifier)
           | Some resolvedFileName \<Rightarrow>
              (case getSourceFile O' resolvedFileName of
                 None \<Rightarrow> Inl (FailedToLocate resolvedFileName)
               | Some moduleSourceFile \<Rightarrow>
                  (case fetchModule moduleSourceFile (Some moduleSpecifier) t of
                     Inl e \<Rightarrow> Inl e
                   | Inr (specifierAstModule, t1) \<Rightarrow> Inr (Some specifierAstModule, t1)))))"

text \<open>\<open>astModule.starExportedModules.add(m)\<close> and \<open>astModule.exportedSymbols.set(name, a)\<close>.\<close>

definition addStarExportedModule ::
  "AstModuleRef \<Rightarrow> AstModuleRef \<Rightarrow> AstSymbolTable \<Rightarrow> AstSymbolTable" where
  "addStarExportedModule astModule m t =
     t\<lparr> astModules := (astModules t)(astModule := (astModules t astModule)
          \<lparr> starExportedModules :=
              (if m \<in> set (starExportedModules (astModules t astModule))
               then starExportedModules (astModules t astModule)
               else starExportedModules (astModules t astModule) @ [m]) \<rparr>) \<rparr>"

definition setExportedSymbol ::
  "AstModuleRef \<Rightarrow> string \<Rightarrow> AstSymbolRef \<Rightarrow> AstSymbolTable \<Rightarrow> AstSymbolTable" where
  "setExportedSymbol astModule name a t =
     t\<lparr> astModules := (astModules t)(astModule := (astModules t astModule)
          \<lparr> exportedSymbols := (exportedSymbols (astModules t astModule))(name \<mapsto> a) \<rparr>) \<rparr>"

text \<open>\<open>_collectExportsFromExportStar\<close> (lines 231-243).\<close>

definition collectExportsFromExportStar ::
  "fetchModuleFn \<Rightarrow> tsProgram \<Rightarrow> AstModuleRef \<Rightarrow> node \<Rightarrow> AstSymbolTable
     \<Rightarrow> error + AstSymbolTable" where
  "collectExportsFromExportStar fetchModule O' astModule exportStarDeclaration t =
     (if nodeKind O' exportStarDeclaration = ExportDeclaration then
        (case fetchSpecifierAstModule fetchModule O' exportStarDeclaration t of
           Inl e \<Rightarrow> Inl e
         | Inr (None, t1) \<Rightarrow> Inr t1
         | Inr (Some starExportedModule, t1) \<Rightarrow>
             Inr (addStarExportedModule astModule starExportedModule t1))
      else Inr t)"

text \<open>
  The \<open>for\<close> loop over \<open>current.declarations\<close> inside \<open>_collectExportForAstModule\<close>
  (lines 135-176). \<open>Returned t\<close>: the function returned from inside the loop; \<open>Fell t\<close>:
  the loop ran to its end.
\<close>

datatype loopExit = Returned AstSymbolTable | Fell AstSymbolTable

fun followExportDeclarations ::
  "nat \<Rightarrow> fetchModuleFn \<Rightarrow> tsProgram \<Rightarrow> AstModuleRef \<Rightarrow> symbol \<Rightarrow> node list
     \<Rightarrow> AstSymbolTable \<Rightarrow> error + loopExit" where
  "followExportDeclarations fuel fetchModule O' astModule exportedSymbol [] t = Inr (Fell t)"
| "followExportDeclarations fuel fetchModule O' astModule exportedSymbol (decl # decls) t =
     (case findFirstParent O' decl ExportDeclaration of
        None \<Rightarrow> followExportDeclarations fuel fetchModule O' astModule exportedSymbol decls t
      | Some exportDeclaration \<Rightarrow>
         if nodeKind O' decl \<noteq> ExportSpecifier
         then Inl (UnimplementedExportDeclarationKind (nodeText O' decl))
         else
          (let exportName' = (case propertyNameText O' decl of
                                Some original \<Rightarrow> original
                              | None \<Rightarrow> nameText O' decl)
           in
           (case fetchSpecifierAstModule fetchModule O' exportDeclaration t of
              Inl e \<Rightarrow> Inl e
            | Inr (None, t1) \<Rightarrow>
                followExportDeclarations fuel fetchModule O' astModule exportedSymbol decls t1
            | Inr (Some specifierAstModule, t1) \<Rightarrow>
               (case getExportOfAstModule fuel t1 exportName' specifierAstModule of
                  Inl e \<Rightarrow> Inl e
                | Inr exportedAstSymbol \<Rightarrow>
                    Inr (Returned (setExportedSymbol astModule (symbolName O' exportedSymbol)
                                     exportedAstSymbol t1))))))"

text \<open>
  The step along the alias chain in \<open>_collectExportForAstModule\<close> (lines 178-188): \<open>None\<close>
  when the loop breaks (the symbol is not an alias, or is the end of the chain, or aliases
  itself).
\<close>

definition nextAlias :: "tsProgram \<Rightarrow> symbol \<Rightarrow> symbol option" where
  "nextAlias O' current =
     (if symbolFlags O' current AND Alias = 0 then None
      else (case getImmediateAliasedSymbol O' current of
              None \<Rightarrow> None
            | Some currentAlias \<Rightarrow>
                if currentAlias = current then None else Some currentAlias))"

text \<open>
  \<open>_collectExportForAstModule\<close> (lines 129-196). The \<open>while (true)\<close> loop follows the alias
  chain, which nothing bounds but the test for an alias of itself: one unit of fuel per
  iteration.
\<close>

fun collectExportForAstModule ::
  "nat \<Rightarrow> nat \<Rightarrow> fetchModuleFn \<Rightarrow> tsProgram \<Rightarrow> AstModuleRef \<Rightarrow> symbol \<Rightarrow> symbol
     \<Rightarrow> AstSymbolTable \<Rightarrow> error + AstSymbolTable" where
  "collectExportForAstModule 0 fuel fetchModule O' astModule exportedSymbol current t =
     Inl OutOfFuel"
| "collectExportForAstModule (Suc loopFuel) fuel fetchModule O' astModule exportedSymbol current t =
     (case followExportDeclarations fuel fetchModule O' astModule exportedSymbol
             (symbolDeclarations O' current) t of
        Inl e \<Rightarrow> Inl e
      | Inr (Returned t1) \<Rightarrow> Inr t1
      | Inr (Fell t1) \<Rightarrow>
         (case nextAlias O' current of
            Some currentAlias \<Rightarrow>
              collectExportForAstModule loopFuel fuel fetchModule O' astModule exportedSymbol
                currentAlias t1
          | None \<Rightarrow>
             (case fetchAstSymbol fuel O' current True None t1 of
                Inl e \<Rightarrow> Inl e
              | Inr (None, t2) \<Rightarrow> Inr t2
              | Inr (Some fetchedAstSymbol, t2) \<Rightarrow>
                  Inr (setExportedSymbol astModule (symbolName O' exportedSymbol)
                         fetchedAstSymbol t2))))"

text \<open>The loop over the exports of an external package's entry point (lines 88-103).\<close>

fun collectExternalExports ::
  "nat \<Rightarrow> tsProgram \<Rightarrow> AstModuleRef \<Rightarrow> string \<Rightarrow> symbol list \<Rightarrow> AstSymbolTable
     \<Rightarrow> error + AstSymbolTable" where
  "collectExternalExports fuel O' astModule path [] t = Inr t"
| "collectExternalExports fuel O' astModule path (exportedSymbol # rest) t =
     (let astImportOptions = \<lparr> exportName = symbolName O' exportedSymbol, modulePath = path \<rparr>;
          followedSymbol' = followAliases O' exportedSymbol
      in
      (case fetchAstSymbol fuel O' followedSymbol' True (Some astImportOptions) t of
         Inl e \<Rightarrow> Inl e
       | Inr (None, t1) \<Rightarrow> Inl (UnsupportedExport (symbolName O' exportedSymbol))
       | Inr (Some a, t1) \<Rightarrow>
           collectExternalExports fuel O' astModule path rest
             (setExportedSymbol astModule (symbolName O' exportedSymbol) a t1)))"

text \<open>The loops over the exports of a local module (lines 106-121).\<close>

fun collectExportStars ::
  "fetchModuleFn \<Rightarrow> tsProgram \<Rightarrow> AstModuleRef \<Rightarrow> node list \<Rightarrow> AstSymbolTable
     \<Rightarrow> error + AstSymbolTable" where
  "collectExportStars fetchModule O' astModule [] t = Inr t"
| "collectExportStars fetchModule O' astModule (exportStarDeclaration # rest) t =
     (case collectExportsFromExportStar fetchModule O' astModule exportStarDeclaration t of
        Inl e \<Rightarrow> Inl e
      | Inr t1 \<Rightarrow> collectExportStars fetchModule O' astModule rest t1)"

fun collectLocalExports ::
  "nat \<Rightarrow> fetchModuleFn \<Rightarrow> tsProgram \<Rightarrow> AstModuleRef \<Rightarrow> symbol list \<Rightarrow> AstSymbolTable
     \<Rightarrow> error + AstSymbolTable" where
  "collectLocalExports fuel fetchModule O' astModule [] t = Inr t"
| "collectLocalExports fuel fetchModule O' astModule (exportedSymbol # rest) t =
     (case (if symbolEscapedName O' exportedSymbol = ExportStar
            then collectExportStars fetchModule O' astModule
                   (symbolDeclarations O' exportedSymbol) t
            else collectExportForAstModule fuel fuel fetchModule O' astModule exportedSymbol
                   exportedSymbol t) of
        Inl e \<Rightarrow> Inl e
      | Inr t1 \<Rightarrow> collectLocalExports fuel fetchModule O' astModule rest t1)"

text \<open>
  \<open>new AstModule(sourceFile)\<close> and its registration in the cache (lines 77-78).
  Modelled from the spec: the constructor of AstModule (not among the sources) gives a
  module with no external path, no exported symbols and no wildcard re-exports.
\<close>

definition newAstModule :: "node \<Rightarrow> AstSymbolTable \<Rightarrow> AstModuleRef \<times> AstSymbolTable" where
  "newAstModule sourceFile' t =
     (let astModule = nextAstModule t
      in (astModule,
          t\<lparr> astModules := (astModules t)(astModule :=
                     \<lparr> sourceFile = sourceFile', externalModulePath = None,
                       exportedSymbols = Map.empty, starExportedModules = [] \<rparr>),
             nextAstModule := Suc astModule,
             astModulesBySourceFile :=
               (astModulesBySourceFile t)(sourceFile' \<mapsto> astModule) \<rparr>))"

text \<open>\<open>astModule.externalModulePath = moduleSpecifier\<close> (line 86).\<close>

definition setExternalModulePath ::
  "AstModuleRef \<Rightarrow> string \<Rightarrow> AstSymbolTable \<Rightarrow> AstSymbolTable" where
  "setExternalModulePath astModule path t =
     t\<lparr> astModules := (astModules t)(astModule :=
          (astModules t astModule)\<lparr> externalModulePath := Some path \<rparr>) \<rparr>"

text \<open>
  The test of line 84: the module specifier, when it is given and is not a relative path
  (the entry point of an external package).
\<close>

definition externalPackagePath :: "tsProgram \<Rightarrow> string option \<Rightarrow> string option" where
  "externalPackagePath O' moduleSpecifier =
     (case moduleSpecifier of
        None \<Rightarrow> None
      | Some spec \<Rightarrow> if isExternalModuleNameRelative O' spec then None else Some spec)"

text \<open>
  \<open>fetchAstModuleBySourceFile\<close> (lines 70-127). A module that re-exports from another one
  calls itself for that module, so the model takes fuel, one unit per nested call.
\<close>

primrec fetchAstModuleBySourceFile ::
  "nat \<Rightarrow> tsProgram \<Rightarrow> node \<Rightarrow> string option \<Rightarrow> AstSymbolTable
     \<Rightarrow> error + (AstModuleRef \<times> AstSymbolTable)" where
  "fetchAstModuleBySourceFile 0 O' = (\<lambda>sourceFile' moduleSpecifier t. Inl OutOfFuel)"
| "fetchAstModuleBySourceFile (Suc fuel) O' = (\<lambda>sourceFile' moduleSpecifier t.
     (case astModulesBySourceFile t sourceFile' of
        Some astModule \<Rightarrow> Inr (astModule, t)
      | None \<Rightarrow>
         (let (astModule, t1) = newAstModule sourceFile' t in
          (case getSymbolForDeclaration O' sourceFile' of
             None \<Rightarrow> Inl TypeError
           | Some moduleSymbol \<Rightarrow>
              (case externalPackagePath O' moduleSpecifier of
                 Some path \<Rightarrow>
                  (case collectExternalExports fuel O' astModule path
                          (getExportsOfModule O' moduleSymbol)
                          (setExternalModulePath astModule path t1) of
                     Inl e \<Rightarrow> Inl e
                   | Inr t2 \<Rightarrow> Inr (astModule, t2))
               | None \<Rightarrow>
                  (case symbolExports O' moduleSymbol of
                     None \<Rightarrow> Inr (astModule, t1)
                   | Some exports \<Rightarrow>
                      (case collectLocalExports fuel (fetchAstModuleBySourceFile fuel O') O'
                              astModule exports t1 of
                         Inl e \<Rightarrow> Inl e
                       | Inr t2 \<Rightarrow> Inr (astModule, t2))))))))"

section \<open>Deep analysis: \<open>analyze\<close>\<close>

text \<open>
  Modelled from the spec: \<open>AstSymbol.analyzed\<close> and \<open>AstSymbol._notifyAnalyzed\<close> (class
  AstSymbol is not among the sources). Analysis always operates at root granularity: the
  flag is kept on the root, \<open>_notifyAnalyzed\<close> marks the node it is called on, and
  \<open>analyzed\<close> of a node reads the flag of its root. This is what the doc comment of
  \<open>analyze\<close> in the source requires (it ensures that \<open>AstSymbol.analyzed\<close> is true for the
  provided symbol, while its code notifies only the root).
\<close>

definition analyzed :: "AstSymbolTable \<Rightarrow> AstSymbolRef \<Rightarrow> bool" where
  "analyzed t a = analyzedFlag (astSymbols t (rootAstSymbol (astSymbols t a)))"

definition notifyAnalyzed :: "AstSymbolRef \<Rightarrow> AstSymbolTable \<Rightarrow> AstSymbolTable" where
  "notifyAnalyzed a t =
     t\<lparr> astSymbols := (astSymbols t)(a := (astSymbols t a)\<lparr> analyzedFlag := True \<rparr>) \<rparr>"

text \<open>
  Modelled from the spec: \<open>AstDeclaration._notifyReferencedAstSymbol\<close> (class AstDeclaration
  is not among the sources): the symbol joins the set of referenced symbols of the
  governing Declaration Node.
\<close>

definition notifyReferencedAstSymbol ::
  "AstDeclarationRef \<Rightarrow> AstSymbolRef \<Rightarrow> AstSymbolTable \<Rightarrow> AstSymbolTable" where
  "notifyReferencedAstSymbol d r t =
     t\<lparr> astDeclarationObjs := (astDeclarationObjs t)(d := (astDeclarationObjs t d)
          \<lparr> referencedAstSymbols :=
              (if r \<in> set (referencedAstSymbols (astDeclarationObjs t d))
               then referencedAstSymbols (astDeclarationObjs t d)
               else referencedAstSymbols (astDeclarationObjs t d) @ [r]) \<rparr>) \<rparr>"

text \<open>\<open>_fetchAstSymbolForNode\<close> (lines 415-426) and \<open>_fetchAstDeclaration\<close> (lines 400-413).\<close>

definition fetchAstSymbolForNode ::
  "nat \<Rightarrow> tsProgram \<Rightarrow> node \<Rightarrow> AstSymbolTable
     \<Rightarrow> error + (AstSymbolRef option \<times> AstSymbolTable)" where
  "fetchAstSymbolForNode fuel O' n t =
     (if \<not> isAstDeclaration O' (nodeKind O' n) then Inr (None, t)
      else
        (case getSymbolForDeclaration O' n of
           None \<Rightarrow> Inl UnableToFindSymbolForNode
         | Some symbol' \<Rightarrow> fetchAstSymbol fuel O' symbol' True None t))"

definition fetchAstDeclaration ::
  "nat \<Rightarrow> tsProgram \<Rightarrow> node \<Rightarrow> AstSymbolTable
     \<Rightarrow> error + (AstDeclarationRef option \<times> AstSymbolTable)" where
  "fetchAstDeclaration fuel O' n t =
     (case fetchAstSymbolForNode fuel O' n t of
        Inl e \<Rightarrow> Inl e
      | Inr (None, t1) \<Rightarrow> Inr (None, t1)
      | Inr (Some a, t1) \<Rightarrow>
         (case astDeclarationsByDeclaration t1 n of
            None \<Rightarrow> Inl UnableToFindConstructedAstDeclaration
          | Some d \<Rightarrow> Inr (Some d, t1)))"

text \<open>The \<open>switch\<close> at the head of \<open>_analyzeChildTree\<close> (lines 359-389), after the JSDoc case.\<close>

definition recordReference ::
  "nat \<Rightarrow> tsProgram \<Rightarrow> node \<Rightarrow> AstDeclarationRef \<Rightarrow> AstSymbolTable
     \<Rightarrow> error + AstSymbolTable" where
  "recordReference fuel O' n governingAstDeclaration t =
     (if nodeKind O' n = TypeReference \<or> nodeKind O' n = ExpressionWithTypeArguments
         \<or> nodeKind O' n = ComputedPropertyName
      then
        (case findFirstChildNode O' n Identifier of
           None \<Rightarrow> Inr t
         | Some symbolNode \<Rightarrow>
            (case getSymbolAtLocation O' symbolNode of
               None \<Rightarrow> Inl (SymbolNotFoundForIdentifier (nodeText O' symbolNode))
             | Some symbol' \<Rightarrow>
                (case fetchAstSymbol fuel O' symbol' True None t of
                   Inl e \<Rightarrow> Inl e
                 | Inr (None, t1) \<Rightarrow> Inr t1
                 | Inr (Some referencedAstSymbol, t1) \<Rightarrow>
                     Inr (notifyReferencedAstSymbol governingAstDeclaration
                            referencedAstSymbol t1))))
      else Inr t)"

text \<open>A loop that runs a state-changing action over a list and stops at the first error.\<close>

fun forEach ::
  "('a \<Rightarrow> AstSymbolTable \<Rightarrow> error + AstSymbolTable) \<Rightarrow> 'a list \<Rightarrow> AstSymbolTable
     \<Rightarrow> error + AstSymbolTable" where
  "forEach action [] t = Inr t"
| "forEach action (x # xs) t =
     (case action x t of Inl e \<Rightarrow> Inl e | Inr t1 \<Rightarrow> forEach action xs t1)"

text \<open>
  \<open>_analyzeChildTree\<close> (lines 358-397). It descends the syntax tree through
  \<open>getChildren()\<close>: one unit of fuel per level.
\<close>

primrec analyzeChildTree ::
  "nat \<Rightarrow> tsProgram \<Rightarrow> node \<Rightarrow> AstDeclarationRef \<Rightarrow> AstSymbolTable
     \<Rightarrow> error + AstSymbolTable" where
  "analyzeChildTree 0 O' = (\<lambda>n governingAstDeclaration t. Inl OutOfFuel)"
| "analyzeChildTree (Suc fuel) O' = (\<lambda>n governingAstDeclaration t.
     (if nodeKind O' n = JSDocComment then Inr t
      else
        (case recordReference fuel O' n governingAstDeclaration t of
           Inl e \<Rightarrow> Inl e
         | Inr t1 \<Rightarrow>
            (case fetchAstDeclaration fuel O' n t1 of
               Inl e \<Rightarrow> Inl e
             | Inr (newGoverningAstDeclaration, t2) \<Rightarrow>
                 forEach (\<lambda>childNode.
                            analyzeChildTree fuel O' childNode
                              (case newGoverningAstDeclaration of
                                 Some d \<Rightarrow> d
                               | None \<Rightarrow> governingAstDeclaration))
                   (nodeChildren O' n) t2))))"

text \<open>
  Modelled from the spec: \<open>forEachDeclarationRecursive\<close> of AstSymbol and AstDeclaration
  (not among the sources) visits every Declaration Node of the subtree: a node, then its
  children. The links are read when the walk reaches the node.
\<close>

primrec declarationForEachRecursive ::
  "nat \<Rightarrow> (AstDeclarationRef \<Rightarrow> AstSymbolTable \<Rightarrow> error + AstSymbolTable)
     \<Rightarrow> AstDeclarationRef \<Rightarrow> AstSymbolTable \<Rightarrow> error + AstSymbolTable" where
  "declarationForEachRecursive 0 action = (\<lambda>d t. Inl OutOfFuel)"
| "declarationForEachRecursive (Suc fuel) action = (\<lambda>d t.
     (case action d t of
        Inl e \<Rightarrow> Inl e
      | Inr t1 \<Rightarrow>
          forEach (declarationForEachRecursive fuel action)
            (children (astDeclarationObjs t1 d)) t1))"

definition forEachDeclarationRecursive ::
  "nat \<Rightarrow> (AstDeclarationRef \<Rightarrow> AstSymbolTable \<Rightarrow> error + AstSymbolTable)
     \<Rightarrow> AstSymbolRef \<Rightarrow> AstSymbolTable \<Rightarrow> error + AstSymbolTable" where
  "forEachDeclarationRecursive fuel action a t =
     forEach (declarationForEachRecursive fuel action) (astDeclarations (astSymbols t a)) t"

text \<open>
  The first loop of \<open>analyze\<close> (lines 304-306): the full child tree of every declaration of
  the root.
\<close>

definition walkDeclarations ::
  "nat \<Rightarrow> tsProgram \<Rightarrow> AstSymbolRef \<Rightarrow> AstSymbolTable \<Rightarrow> error + AstSymbolTable" where
  "walkDeclarations fuel O' rootAstSymbol' t =
     forEach (\<lambda>astDeclaration t1.
                analyzeChildTree fuel O'
                  (declarationNode (astDeclarationObjs t1 astDeclaration)) astDeclaration t1)
       (astDeclarations (astSymbols t rootAstSymbol')) t"

text \<open>
  The callback of \<open>forEachDeclarationRecursive\<close> in \<open>analyze\<close> (lines 314-321): the
  referenced symbols of one declaration that are not imported are analyzed; \<open>analyzeFn\<close> is
  the call of \<open>analyze\<close>.
\<close>

definition analyzeReferences ::
  "(AstSymbolRef \<Rightarrow> AstSymbolTable \<Rightarrow> error + AstSymbolTable)
     \<Rightarrow> AstDeclarationRef \<Rightarrow> AstSymbolTable \<Rightarrow> error + AstSymbolTable" where
  "analyzeReferences analyzeFn astDeclaration t =
     forEach (\<lambda>referencedAstSymbol t1.
                if \<not> imported (astSymbols t1 referencedAstSymbol)
                then analyzeFn referencedAstSymbol t1
                else Inr t1)
       (referencedAstSymbols (astDeclarationObjs t astDeclaration)) t"

text \<open>
  \<open>analyze\<close> (lines 289-323). It calls itself for the referenced symbols: one unit of fuel
  per nested call.
\<close>

primrec analyze ::
  "nat \<Rightarrow> tsProgram \<Rightarrow> AstSymbolRef \<Rightarrow> AstSymbolTable \<Rightarrow> error + AstSymbolTable" where
  "analyze 0 O' = (\<lambda>a t. Inl OutOfFuel)"
| "analyze (Suc fuel) O' = (\<lambda>a t.
     (if analyzed t a then Inr t
      else if nominal (astSymbols t a) then Inr (notifyAnalyzed a t)
      else
        (let rootAstSymbol' = rootAstSymbol (astSymbols t a) in
         (case walkDeclarations fuel O' rootAstSymbol' t of
            Inl e \<Rightarrow> Inl e
          | Inr t1 \<Rightarrow>
             (let t2 = notifyAnalyzed rootAstSymbol' t1 in
              if astImport (astSymbols t2 a) = None then
                forEachDeclarationRecursive fuel (analyzeReferences (analyze fuel O'))
                  rootAstSymbol' t2
              else Inr t2)))))"

section \<open>How the table grows\<close>

text \<open>
  The attributes of a Symbol Node that never change once it is constructed, and the
  analyzed flag, which is only ever set.
\<close>

definition symbolKept :: "AstSymbol \<Rightarrow> AstSymbol \<Rightarrow> bool" where
  "symbolKept x y \<longleftrightarrow>
     localName y = localName x \<and> followedSymbol y = followedSymbol x
     \<and> astImport y = astImport x \<and> parentAstSymbol y = parentAstSymbol x
     \<and> rootAstSymbol y = rootAstSymbol x \<and> nominal y = nominal x
     \<and> imported y = imported x \<and> (analyzedFlag x \<longrightarrow> analyzedFlag y)
     \<and> set (astDeclarations x) \<subseteq> set (astDeclarations y)"

text \<open>
  References never dangle: every handle held by a cache or by a constructed object is the
  handle of a constructed object. The root of a constructed Symbol Node is constructed and,
  for a nominal node (which has no parent), is the node itself.
\<close>

definition tableWellFormed :: "AstSymbolTable \<Rightarrow> bool" where
  "tableWellFormed t \<longleftrightarrow>
     (\<forall>k h. astSymbolsBySymbol t k = Some h \<longrightarrow> h < nextAstSymbol t)
     \<and> (\<forall>k h. astSymbolsByImportKey t k = Some h \<longrightarrow> h < nextAstSymbol t)
     \<and> (\<forall>a < nextAstSymbol t.
           rootAstSymbol (astSymbols t a) < nextAstSymbol t
           \<and> (nominal (astSymbols t a) \<longrightarrow> rootAstSymbol (astSymbols t a) = a)
           \<and> (\<forall>d \<in> set (astDeclarations (astSymbols t a)). d < nextAstDeclaration t))
     \<and> (\<forall>d < nextAstDeclaration t.
           (\<forall>c \<in> set (children (astDeclarationObjs t d)). c < nextAstDeclaration t)
           \<and> (\<forall>r \<in> set (referencedAstSymbols (astDeclarationObjs t d)).
                 r < nextAstSymbol t))"

text \<open>
  \<open>tableExtends t t'\<close>: every binding of the symbol, import-key and module caches of \<open>t\<close> is
  still a binding of \<open>t'\<close>, no object was discarded, the Symbol Nodes constructed in \<open>t\<close>
  keep their attributes and declarations, the Declaration Nodes constructed in \<open>t\<close> keep
  their children and referenced symbols, the modules constructed in \<open>t\<close> keep their
  wildcard re-exports and exported names, and no reference was left dangling.
\<close>

definition tableExtends :: "AstSymbolTable \<Rightarrow> AstSymbolTable \<Rightarrow> bool" where
  "tableExtends t t' \<longleftrightarrow>
     (\<forall>k h. astSymbolsBySymbol t k = Some h \<longrightarrow> astSymbolsBySymbol t' k = Some h)
     \<and> (\<forall>k h. astSymbolsByImportKey t k = Some h \<longrightarrow> astSymbolsByImportKey t' k = Some h)
     \<and> (\<forall>k h. astModulesBySourceFile t k = Some h \<longrightarrow> astModulesBySourceFile t' k = Some h)
     \<and> nextAstSymbol t \<le> nextAstSymbol t'
     \<and> nextAstDeclaration t \<le> nextAstDeclaration t'
     \<and> nextAstModule t \<le> nextAstModule t'
     \<and> (\<forall>x < nextAstSymbol t. symbolKept (astSymbols t x) (astSymbols t' x))
     \<and> (\<forall>m < nextAstModule t.
           set (starExportedModules (astModules t m))
             \<subseteq> set (starExportedModules (astModules t' m))
           \<and> dom (exportedSymbols (astModules t m))
             \<subseteq> dom (exportedSymbols (astModules t' m)))
     \<and> (\<forall>d < nextAstDeclaration t.
           set (children (astDeclarationObjs t d)) \<subseteq> set (children (astDeclarationObjs t' d))
           \<and> set (referencedAstSymbols (astDeclarationObjs t d))
                 \<subseteq> set (referencedAstSymbols (astDeclarationObjs t' d)))
     \<and> (tableWellFormed t \<longrightarrow> tableWellFormed t')"

section \<open>A small program\<close>

text \<open>The table of a new AstSymbolTable: empty caches, no objects.\<close>

definition emptyTable :: AstSymbolTable where
  "emptyTable =
     \<lparr> astSymbolsBySymbol = Map.empty, astDeclarationsByDeclaration = Map.empty,
       astSymbolsByImportKey = Map.empty, astModulesBySourceFile = Map.empty,
       astSymbols = (\<lambda>_. \<lparr> localName = [], followedSymbol = 0, astImport = None,
                            parentAstSymbol = None, rootAstSymbol = 0, nominal = False,
                            imported = False, analyzedFlag = False, astDeclarations = [] \<rparr>),
       nextAstSymbol = 0,
       astDeclarationObjs = (\<lambda>_. \<lparr> declarationNode = 0, astSymbol = 0, parent = None,
                                    children = [], referencedAstSymbols = [] \<rparr>),
       nextAstDeclaration = 0,
       astModules = (\<lambda>_. \<lparr> sourceFile = 0, externalModulePath = None,
                            exportedSymbols = Map.empty, starExportedModules = [] \<rparr>),
       nextAstModule = 0 \<rparr>"

text \<open>
  Two local modules and two external packages.

  \<^verbatim>\<open>a.ts\<close> (source file 100, module symbol 50):
  \<^verbatim>\<open>export * from './b';\<close> (declaration 110 of the export-star symbol 51),
  \<^verbatim>\<open>export class Foo { member: Helper }\<close> (symbol 1, declaration 10; the member is symbol 6,
  declaration 11, with the type reference 14 to the identifier 16),
  \<^verbatim>\<open>export { X as Y } from './b';\<close> (symbol 52, export specifier 130 in the export
  declaration 131), \<^verbatim>\<open>class Helper {}\<close> (symbol 7, declaration 15, not exported), and an
  export \<open>Amb\<close> of an ambient declaration (symbol 5, declaration 13).

  \<^verbatim>\<open>b.ts\<close> (source file 101, module symbol 60):
  \<^verbatim>\<open>export * from './a';\<close> (declaration 120 of the export-star symbol 61) and
  \<^verbatim>\<open>export class X {}\<close> (symbol 62, declaration 12).

  Package \<open>pkg\<close> (source file 200, module symbol 70) exports \<open>Bar\<close> (symbol 2, declaration
  20); a second copy of the package declares the same export as symbol 3 (declaration 30).
  Package \<open>pkg2\<close> (source file 201, module symbol 71) exports the ambient symbol 5.
  Symbol 4 is a type parameter. \<open>imported\<close> is read off the root: a node without parent is
  imported iff it has an import identity, a nested node iff its parent is.
\<close>

definition exampleProgram :: tsProgram where
  "exampleProgram =
     \<lparr> symbolFlags = (\<lambda>s. if s = 4 then TypeParameter else if s = 52 then Alias else 32),
       symbolName = (\<lambda>s. if s = 1 then ''Foo'' else if s = 6 then ''member''
                          else if s = 2 \<or> s = 3 then ''Bar'' else if s = 5 then ''Amb''
                          else if s = 7 then ''Helper'' else if s = 52 then ''Y''
                          else if s = 62 then ''X''
                          else if s = 51 \<or> s = 61 then ''__export'' else []),
       symbolEscapedName = (\<lambda>s. if s = 51 \<or> s = 61 then ''__export'' else ''other''),
       symbolDeclarations = (\<lambda>s. if s = 1 then [10] else if s = 6 then [11]
                          else if s = 2 then [20] else if s = 3 then [30]
                          else if s = 5 then [13] else if s = 7 then [15]
                          else if s = 51 then [110] else if s = 52 then [130]
                          else if s = 61 then [120] else if s = 62 then [12]
                          else if s = 50 then [100] else if s = 60 then [101] else []),
       symbolExports = (\<lambda>s. if s = 50 then Some [51, 1, 52, 5]
                          else if s = 60 then Some [61, 62] else None),
       nodeKind = (\<lambda>n. if n = 100 \<or> n = 101 \<or> n = 200 \<or> n = 201 then SourceFile
                        else if n = 110 \<or> n = 120 \<or> n = 131 then ExportDeclaration
                        else if n = 130 then ExportSpecifier
                        else if n = 14 then TypeReference
                        else if n = 16 then Identifier
                        else OtherKind 1),
       nodeAncestors = (\<lambda>n. if n = 11 then [10, 100] else if n = 14 then [11, 10, 100]
                        else if n = 16 then [14, 11, 10, 100]
                        else if n = 130 then [131, 100]
                        else if n = 12 \<or> n = 120 then [101]
                        else if n = 20 then [200] else if n = 30 then [201]
                        else if n = 100 \<or> n = 101 \<or> n = 200 \<or> n = 201 then []
                        else [100]),
       nodeChildren = (\<lambda>n. if n = 10 then [11] else if n = 11 then [14]
                        else if n = 14 then [16] else []),
       nodeSourceFile = (\<lambda>n. if n = 12 \<or> n = 120 \<or> n = 101 then 101
                        else if n = 20 \<or> n = 200 then 200
                        else if n = 30 \<or> n = 201 then 201 else 100),
       nodeText = (\<lambda>n. if n = 16 then ''Helper'' else []),
       sourceFileName = (\<lambda>n. if n = 100 then ''a.ts'' else if n = 101 then ''b.ts''
                        else if n = 200 then ''pkg.d.ts'' else ''pkg2.d.ts''),
       propertyNameText = (\<lambda>n. if n = 130 then Some ''X'' else None),
       nameText = (\<lambda>n. if n = 130 then ''Y'' else []),
       isAmbient = (\<lambda>s. s = 5),
       isAstDeclaration = (\<lambda>k. k = OtherKind 1),
       isAedocSupportedFor = (\<lambda>f. True),
       getSymbolForDeclaration = (\<lambda>n. if n = 100 then Some 50 else if n = 101 then Some 60
                        else if n = 200 then Some 70 else if n = 201 then Some 71
                        else if n = 10 then Some 1 else if n = 11 then Some 6
                        else if n = 12 then Some 62 else if n = 13 then Some 5
                        else if n = 15 then Some 7 else if n = 20 then Some 2
                        else if n = 30 then Some 3 else None),
       followAliases = (\<lambda>s. s),
       getImmediateAliasedSymbol = (\<lambda>s. if s = 52 then Some 62 else None),
       getExportsOfModule = (\<lambda>s. if s = 70 then [2] else if s = 71 then [5] else []),
       getSymbolAtLocation = (\<lambda>n. if n = 16 then Some 7 else None),
       findFirstParent = (\<lambda>n k. if n = 130 \<and> k = ExportDeclaration then Some 131 else None),
       findFirstChildNode = (\<lambda>n k. if n = 14 \<and> k = Identifier then Some 16 else None),
       getModuleSpecifier = (\<lambda>n. if n = 110 \<or> n = 131 then Some ''./b''
                        else if n = 120 then Some ''./a'' else None),
       getResolvedModule = (\<lambda>f spec. if f = 100 \<and> spec = ''./b'' then Some ''b.ts''
                        else if f = 101 \<and> spec = ''./a'' then Some ''a.ts'' else None),
       getSourceFile = (\<lambda>f. if f = ''a.ts'' then Some 100
                        else if f = ''b.ts'' then Some 101 else None),
       isExternalModuleNameRelative = (\<lambda>spec. take 1 spec = ''.''),
       importedOfNew = (\<lambda>i p. case p of None \<Rightarrow> i \<noteq> None | Some b \<Rightarrow> b) \<rparr>"

text \<open>The import identity of \<open>Bar\<close> from \<open>pkg\<close>.\<close>

definition barFromPkg :: AstImportOptions where
  "barFromPkg = \<lparr> exportName = ''Bar'', modulePath = ''pkg'' \<rparr>"

text \<open>The table after \<open>Foo\<close> was fetched, without import identity, into a new table.\<close>

definition afterFetchFoo :: AstSymbolTable where
  "afterFetchFoo = snd (projr (fetchAstSymbol (Suc 0) exampleProgram 1 True None emptyTable))"

text \<open>The table after \<open>Bar\<close> was fetched as the export \<open>Bar\<close> of \<open>pkg\<close> into a new table.\<close>

definition afterFetchBar :: AstSymbolTable where
  "afterFetchBar =
     snd (projr (fetchAstSymbol (Suc 0) exampleProgram 2 True (Some barFromPkg) emptyTable))"

text \<open>The wildcard re-export edges between the modules of a table.\<close>

definition starEdge :: "AstSymbolTable \<Rightarrow> (AstModuleRef \<times> AstModuleRef) set" where
  "starEdge t = {(m, m'). m' \<in> set (starExportedModules (astModules t m))}"

text \<open>
  Every wildcard re-export edge of a constructed module leads to a constructed module
  (an object reference never dangles).
\<close>

definition modulesClosed :: "AstSymbolTable \<Rightarrow> bool" where
  "modulesClosed t \<longleftrightarrow>
     (\<forall>m < nextAstModule t. \<forall>m' \<in> set (starExportedModules (astModules t m)).
        m' < nextAstModule t)"

text \<open>The table after \<^verbatim>\<open>a.ts\<close> was resolved as a local module in a new table.\<close>

definition afterFetchModuleA :: AstSymbolTable where
  "afterFetchModuleA =
     snd (projr (fetchAstModuleBySourceFile 6 exampleProgram 100 None emptyTable))"

text \<open>
  A run of the Symbol Table: the tables it passes through from a table \<open>t\<close> on, by any
  sequence of returning calls of \<open>_fetchAstSymbol\<close> (so also of \<open>tryGetAstSymbol\<close>),
  \<open>fetchAstModuleBySourceFile\<close> and \<open>analyze\<close>, with any arguments.
\<close>

inductive run :: "tsProgram \<Rightarrow> AstSymbolTable \<Rightarrow> AstSymbolTable \<Rightarrow> bool" for P :: tsProgram where
  run_start: "run P t t"
| run_fetchAstSymbol:
    "run P t t1 \<Longrightarrow> fetchAstSymbol fuel P s addIfMissing imp t1 = Inr (r, t2) \<Longrightarrow> run P t t2"
| run_fetchAstModule:
    "run P t t1 \<Longrightarrow> fetchAstModuleBySourceFile fuel P sf spec t1 = Inr (m, t2) \<Longrightarrow> run P t t2"
| run_analyze:
    "run P t t1 \<Longrightarrow> analyze fuel P a t1 = Inr t2 \<Longrightarrow> run P t t2"

text \<open>
  The target of the wildcard re-export declaration \<open>decl\<close> of module \<open>m\<close> has been resolved:
  the source file its specifier resolves to is in the module cache, and its Module Registry
  Entry is among the \<open>starExportedModules\<close> of \<open>m\<close>.
\<close>

definition wildcardTargetResolved ::
  "tsProgram \<Rightarrow> AstSymbolTable \<Rightarrow> AstModuleRef \<Rightarrow> node \<Rightarrow> bool" where
  "wildcardTargetResolved P t m decl =
     (case getModuleSpecifier P decl of
        None \<Rightarrow> False
      | Some spec \<Rightarrow>
         (case getResolvedModule P (nodeSourceFile P decl) spec of
            None \<Rightarrow> False
          | Some file \<Rightarrow>
             (case getSourceFile P file of
                None \<Rightarrow> False
              | Some target \<Rightarrow>
                 (case astModulesBySourceFile t target of
                    None \<Rightarrow> False
                  | Some m' \<Rightarrow> m' \<in> set (starExportedModules (astModules t m))))))"



text \<open>
  The table after \<^verbatim>\<open>a.ts\<close> was resolved and its export \<open>Foo\<close> (Symbol Node 1) analyzed.
\<close>

definition afterAnalyzeFoo :: AstSymbolTable where
  "afterAnalyzeFoo = projr (analyze 6 exampleProgram 1 afterFetchModuleA)"

text \<open>The import identity of \<open>Baz\<close> from \<open>pkg\<close>, a second name under which \<open>pkg\<close> exports symbol 2.\<close>

definition bazFromPkg :: AstImportOptions where
  "bazFromPkg = \<lparr> exportName = ''Baz'', modulePath = ''pkg'' \<rparr>"

text \<open>The table after symbol 2 was fetched as the export \<open>Baz\<close> of \<open>pkg\<close> into a new table.\<close>

definition afterFetchBaz :: AstSymbolTable where
  "afterFetchBaz =
     snd (projr (fetchAstSymbol (Suc 0) exampleProgram 2 True (Some bazFromPkg) emptyTable))"

text \<open>The table after symbol 3 was then fetched as the export \<open>Bar\<close> of \<open>pkg\<close>.\<close>

definition afterFetchBazBar :: AstSymbolTable where
  "afterFetchBazBar =
     snd (projr (fetchAstSymbol (Suc 0) exampleProgram 3 True (Some barFromPkg) afterFetchBaz))"

section \<open>Resolved exports and resolved modules\<close>

text \<open>\<open>sameModules t t'\<close>: the modules and the module cache of \<open>t'\<close> are those of \<open>t\<close>.\<close>

definition sameModules :: "AstSymbolTable \<Rightarrow> AstSymbolTable \<Rightarrow> bool" where
  "sameModules t t' \<longleftrightarrow>
     astModules t' = astModules t \<and> nextAstModule t' = nextAstModule t
     \<and> astModulesBySourceFile t' = astModulesBySourceFile t"

text \<open>
  The name an export specifier asks for in the module it re-exports from: the original
  name of \<open>X as Y\<close>, or the name itself (line 161).
\<close>

definition exportNameOf :: "tsProgram \<Rightarrow> node \<Rightarrow> string" where
  "exportNameOf P decl =
     (case propertyNameText P decl of Some original \<Rightarrow> original | None \<Rightarrow> nameText P decl)"

text \<open>
  The Module Registry Entry of the module that the specifier of an import or export
  declaration resolves to, when that module is in the module cache.
\<close>

definition specifierTarget :: "tsProgram \<Rightarrow> AstSymbolTable \<Rightarrow> node \<Rightarrow> AstModuleRef option" where
  "specifierTarget P t decl =
     (case getModuleSpecifier P decl of
        None \<Rightarrow> None
      | Some spec \<Rightarrow>
         (case getResolvedModule P (nodeSourceFile P decl) spec of
            None \<Rightarrow> None
          | Some file \<Rightarrow>
             (case getSourceFile P file of
                None \<Rightarrow> None
              | Some target \<Rightarrow> astModulesBySourceFile t target)))"

text \<open>
  The first declaration in a list that sits in an export declaration with a module
  specifier (a re-export from another module), with that export declaration.
\<close>

fun reexportOf :: "tsProgram \<Rightarrow> node list \<Rightarrow> (node \<times> node) option" where
  "reexportOf P [] = None"
| "reexportOf P (decl # decls) =
     (case findFirstParent P decl ExportDeclaration of
        None \<Rightarrow> reexportOf P decls
      | Some exportDeclaration \<Rightarrow>
         (case getModuleSpecifier P exportDeclaration of
            None \<Rightarrow> reexportOf P decls
          | Some spec \<Rightarrow>
              if spec = [] then reexportOf P decls else Some (decl, exportDeclaration)))"

text \<open>
  The symbols that the loop of \<open>_collectExportForAstModule\<close> passes through from a symbol:
  it steps to the immediately aliased symbol as long as the current one is not a re-export
  from another module.
\<close>

inductive followsTo :: "tsProgram \<Rightarrow> symbol \<Rightarrow> symbol \<Rightarrow> bool" for P :: tsProgram where
  follows_start: "followsTo P e e"
| follows_step:
    "reexportOf P (symbolDeclarations P e) = None \<Longrightarrow> nextAlias P e = Some c
     \<Longrightarrow> followsTo P c c' \<Longrightarrow> followsTo P e c'"

text \<open>
  What \<open>_collectExportForAstModule\<close> does when its loop stops at the symbol \<open>c\<close> in table
  \<open>u\<close>: at a re-export it binds the name of \<open>e\<close> to the node that the lookup of the original
  name in the target module returns; at the end of an alias chain it binds the name to the
  node of \<open>c\<close>, unless \<open>c\<close> is filtered out.
\<close>

definition exportOutcome ::
  "tsProgram \<Rightarrow> nat \<Rightarrow> AstModuleRef \<Rightarrow> symbol \<Rightarrow> symbol \<Rightarrow> AstSymbolTable \<Rightarrow> AstSymbolTable
     \<Rightarrow> bool" where
  "exportOutcome P fuel m e c u t' \<longleftrightarrow>
     (case reexportOf P (symbolDeclarations P c) of
        Some (decl, ed) \<Rightarrow>
          (\<exists>sm a. specifierTarget P u ed = Some sm
             \<and> getExportOfAstModule fuel u (exportNameOf P decl) sm = Inr a
             \<and> t' = setExportedSymbol m (symbolName P e) a u)
      | None \<Rightarrow>
          nextAlias P c = None
          \<and> (if filteredFlags P c \<or> isAmbient P c then t' = u
               else (\<exists>a. astSymbolsBySymbol u c = Some a
                       \<and> t' = setExportedSymbol m (symbolName P e) a u)))"

text \<open>
  \<open>moduleFrame m t t'\<close>: no module was discarded, the modules constructed in \<open>t\<close> other
  than \<open>m\<close> are as they were, and \<open>m\<close> kept its source file and its external path.
\<close>

definition moduleFrame :: "AstModuleRef \<Rightarrow> AstSymbolTable \<Rightarrow> AstSymbolTable \<Rightarrow> bool" where
  "moduleFrame m t t' \<longleftrightarrow>
     nextAstModule t \<le> nextAstModule t'
     \<and> (\<forall>m' < nextAstModule t. m' \<noteq> m \<longrightarrow> astModules t' m' = astModules t m')
     \<and> (m < nextAstModule t \<longrightarrow>
          sourceFile (astModules t' m) = sourceFile (astModules t m)
          \<and> externalModulePath (astModules t' m) = externalModulePath (astModules t m))"

text \<open>\<open>modulesKept t t'\<close>: the modules constructed in \<open>t\<close> are as they were.\<close>

definition modulesKept :: "AstSymbolTable \<Rightarrow> AstSymbolTable \<Rightarrow> bool" where
  "modulesKept t t' \<longleftrightarrow>
     nextAstModule t \<le> nextAstModule t'
     \<and> (\<forall>m < nextAstModule t. astModules t' m = astModules t m)"

text \<open>
  Module references never dangle: the module cache and the wildcard re-exports of the
  constructed modules hold handles of constructed modules only.
\<close>

definition modulesWellFormed :: "AstSymbolTable \<Rightarrow> bool" where
  "modulesWellFormed t \<longleftrightarrow>
     (\<forall>k h. astModulesBySourceFile t k = Some h \<longrightarrow> h < nextAstModule t) \<and> modulesClosed t"

text \<open>
  \<open>exportsKept t t'\<close>: no module was discarded and every binding of an exported name in a
  module constructed in \<open>t\<close> is still a binding in \<open>t'\<close>.
\<close>

definition exportsKept :: "AstSymbolTable \<Rightarrow> AstSymbolTable \<Rightarrow> bool" where
  "exportsKept t t' \<longleftrightarrow>
     nextAstModule t \<le> nextAstModule t'
     \<and> (\<forall>m < nextAstModule t. \<forall>n a.
           exportedSymbols (astModules t m) n = Some a \<longrightarrow>
           exportedSymbols (astModules t' m) n = Some a)"

text \<open>
  A module exports a name with a Symbol Node when the module itself, or a module it
  reaches over wildcard re-exports, binds the name to that node.
\<close>

definition exportReachable ::
  "AstSymbolTable \<Rightarrow> AstModuleRef \<Rightarrow> string \<Rightarrow> AstSymbolRef \<Rightarrow> bool" where
  "exportReachable t m n a \<longleftrightarrow>
     (\<exists>m'. (m, m') \<in> (starEdge t)\<^sup>* \<and> exportedSymbols (astModules t m') n = Some a)"

text \<open>
  The exported symbols of a module symbol other than the wildcard re-exports.
\<close>

definition directExports :: "tsProgram \<Rightarrow> symbol list \<Rightarrow> symbol list" where
  "directExports P exports = filter (\<lambda>e. symbolEscapedName P e \<noteq> ExportStar) exports"

text \<open>
  The compiler keeps the exports of a module symbol in a table keyed by name (the code
  iterates over \<open>moduleSymbol.exports.values()\<close>): no two direct exports of a module have the
  same name.
\<close>

definition exportNamesDistinct :: "tsProgram \<Rightarrow> bool" where
  "exportNamesDistinct P \<longleftrightarrow>
     (\<forall>ms exports. symbolExports P ms = Some exports \<longrightarrow>
        distinct (map (symbolName P) (directExports P exports)))"

text \<open>
  The name of the export \<open>e\<close> of module \<open>m\<close> is bound as the symbol \<open>c\<close>, at which the
  loop of \<open>_collectExportForAstModule\<close> stops, requires. Either \<open>c\<close> is a re-export from
  another module: then that module is in the module cache, and the name of \<open>e\<close> is bound in
  \<open>exportedSymbols\<close> to a Symbol Node that the target module exports under the original
  name. Or \<open>c\<close> is the end of the alias chain, the terminal identity: then the name of \<open>e\<close>
  is bound in \<open>exportedSymbols\<close> to the Symbol Node of \<open>c\<close> in the identity cache, unless
  \<open>c\<close> is filtered out, and then the name is not bound.
\<close>

definition exportBound ::
  "tsProgram \<Rightarrow> AstSymbolTable \<Rightarrow> AstModuleRef \<Rightarrow> symbol \<Rightarrow> symbol \<Rightarrow> bool" where
  "exportBound P t m e c \<longleftrightarrow>
     (case reexportOf P (symbolDeclarations P c) of
        Some (decl, ed) \<Rightarrow>
          (\<exists>sm a. specifierTarget P t ed = Some sm
             \<and> exportReachable t sm (exportNameOf P decl) a
             \<and> exportedSymbols (astModules t m) (symbolName P e) = Some a)
      | None \<Rightarrow>
          nextAlias P c = None
          \<and> (if filteredFlags P c \<or> isAmbient P c
             then exportedSymbols (astModules t m) (symbolName P e) = None
             else (\<exists>a. astSymbolsBySymbol t c = Some a
                     \<and> exportedSymbols (astModules t m) (symbolName P e) = Some a)))"

text \<open>
  A direct export \<open>e\<close> of module \<open>m\<close> has been resolved in table \<open>t\<close>: the loop of
  \<open>_collectExportForAstModule\<close> leads from \<open>e\<close> to a symbol where it stops, and the name of
  \<open>e\<close> is bound as that symbol requires.
\<close>

definition directExportResolved ::
  "tsProgram \<Rightarrow> AstSymbolTable \<Rightarrow> AstModuleRef \<Rightarrow> symbol \<Rightarrow> bool" where
  "directExportResolved P t m e \<longleftrightarrow> (\<exists>c. followsTo P e c \<and> exportBound P t m e c)"

text \<open>
  The wildcard re-exports of module \<open>m\<close> that the export-star symbol \<open>e\<close> stands for have
  been resolved: the target of every \<open>export * from\<close> declaration with a module specifier.
\<close>

definition wildcardsResolved ::
  "tsProgram \<Rightarrow> AstSymbolTable \<Rightarrow> AstModuleRef \<Rightarrow> symbol \<Rightarrow> bool" where
  "wildcardsResolved P t m e \<longleftrightarrow>
     (\<forall>decl \<in> set (symbolDeclarations P e).
        nodeKind P decl = ExportDeclaration
        \<and> (\<exists>spec. getModuleSpecifier P decl = Some spec \<and> spec \<noteq> [])
        \<longrightarrow> wildcardTargetResolved P t m decl)"

text \<open>An export of a module is resolved, as a wildcard re-export or as a direct export.\<close>

definition exportResolved ::
  "tsProgram \<Rightarrow> AstSymbolTable \<Rightarrow> AstModuleRef \<Rightarrow> symbol \<Rightarrow> bool" where
  "exportResolved P t m e \<longleftrightarrow>
     (if symbolEscapedName P e = ExportStar then wildcardsResolved P t m e
      else directExportResolved P t m e)"

text \<open>
  The Module Registry Entry \<open>m\<close> of a local module is resolved: every export of its module
  symbol is resolved, and \<open>exportedSymbols\<close> binds no other name than those of its direct
  exports (the names that its wildcard targets export are not copied into it).
\<close>

definition moduleResolved :: "tsProgram \<Rightarrow> AstSymbolTable \<Rightarrow> AstModuleRef \<Rightarrow> bool" where
  "moduleResolved P t m \<longleftrightarrow>
     (externalModulePath (astModules t m) = None \<longrightarrow>
        (\<forall>ms exports.
           getSymbolForDeclaration P (sourceFile (astModules t m)) = Some ms
           \<and> symbolExports P ms = Some exports \<longrightarrow>
             (\<forall>e \<in> set exports. exportResolved P t m e)
             \<and> (\<forall>n. n \<notin> symbolName P ` set (directExports P exports) \<longrightarrow>
                    exportedSymbols (astModules t m) n = None)))"

text \<open>
  \<open>resolvedSince P b S t\<close>: the Module Registry Entries of \<open>t\<close> from handle \<open>b\<close> on are
  resolved, but for the entries in \<open>S\<close> (those under construction). A step \<open>preserves\<close> this
  when it holds after the step if it held before, whatever \<open>b\<close>.
\<close>

definition resolvedSince ::
  "tsProgram \<Rightarrow> AstModuleRef \<Rightarrow> AstModuleRef set \<Rightarrow> AstSymbolTable \<Rightarrow> bool" where
  "resolvedSince P b S t \<longleftrightarrow>
     (\<forall>m. b \<le> m \<and> m < nextAstModule t \<and> m \<notin> S \<longrightarrow> moduleResolved P t m)"

definition preserves ::
  "tsProgram \<Rightarrow> AstModuleRef set \<Rightarrow> AstSymbolTable \<Rightarrow> AstSymbolTable \<Rightarrow> bool" where
  "preserves P S t t' \<longleftrightarrow> (\<forall>b. resolvedSince P b S t \<longrightarrow> resolvedSince P b S t')"

text \<open>
  \<open>localStep P S m N t t'\<close>: what a step in the construction of module \<open>m\<close> does to the
  table. It extends the table and keeps the bindings of exported names; it leaves the
  other modules as they were; of \<open>m\<close> it changes the bindings of the names in \<open>N\<close> at most;
  and it keeps the modules well-formed and the modules outside \<open>S\<close> resolved.
\<close>

definition localStep ::
  "tsProgram \<Rightarrow> AstModuleRef set \<Rightarrow> AstModuleRef \<Rightarrow> string set \<Rightarrow> AstSymbolTable
     \<Rightarrow> AstSymbolTable \<Rightarrow> bool" where
  "localStep P S m N t t' \<longleftrightarrow>
     tableExtends t t' \<and> exportsKept t t' \<and> moduleFrame m t t'
     \<and> (m < nextAstModule t \<longrightarrow>
          (\<forall>n. n \<notin> N \<longrightarrow>
             exportedSymbols (astModules t' m) n = exportedSymbols (astModules t m) n))
     \<and> (m < nextAstModule t \<and> modulesWellFormed t \<longrightarrow>
          modulesWellFormed t' \<and> preserves P S t t')"

section \<open>Analyzed references\<close>






section \<open>Properties of symbol construction\<close>

lemma symbolKept_refl [simp]: "symbolKept x x"
  by (simp add: symbolKept_def)

lemma symbolKept_trans: "symbolKept x y \<Longrightarrow> symbolKept y z \<Longrightarrow> symbolKept x z"
  unfolding symbolKept_def by auto

lemma tableExtends_refl [simp]: "tableExtends t t"
  by (simp add: tableExtends_def)

lemma tableExtends_bySymbol:
  "tableExtends t t' \<Longrightarrow> astSymbolsBySymbol t k = Some h \<Longrightarrow> astSymbolsBySymbol t' k = Some h"
  unfolding tableExtends_def by blast

lemma tableExtends_byImportKey:
  "tableExtends t t' \<Longrightarrow> astSymbolsByImportKey t k = Some h \<Longrightarrow> astSymbolsByImportKey t' k = Some h"
  unfolding tableExtends_def by blast

lemma tableExtends_byModule:
  "tableExtends t t' \<Longrightarrow> astModulesBySourceFile t k = Some h \<Longrightarrow> astModulesBySourceFile t' k = Some h"
  unfolding tableExtends_def by blast

lemma tableExtends_kept:
  "tableExtends t t' \<Longrightarrow> x < nextAstSymbol t \<Longrightarrow> symbolKept (astSymbols t x) (astSymbols t' x)"
  unfolding tableExtends_def by blast

lemma tableExtends_next:
  "tableExtends t t' \<Longrightarrow> nextAstSymbol t \<le> nextAstSymbol t'"
  unfolding tableExtends_def by blast

lemma tableExtends_nextDeclaration:
  "tableExtends t t' \<Longrightarrow> nextAstDeclaration t \<le> nextAstDeclaration t'"
  unfolding tableExtends_def by blast

lemma tableExtends_nextModule:
  "tableExtends t t' \<Longrightarrow> nextAstModule t \<le> nextAstModule t'"
  unfolding tableExtends_def by blast

lemma tableExtends_stars:
  "tableExtends t t' \<Longrightarrow> m < nextAstModule t \<Longrightarrow>
   x \<in> set (starExportedModules (astModules t m)) \<Longrightarrow>
   x \<in> set (starExportedModules (astModules t' m))"
  unfolding tableExtends_def by blast

lemma tableExtends_exported:
  "tableExtends t t' \<Longrightarrow> m < nextAstModule t \<Longrightarrow>
   x \<in> dom (exportedSymbols (astModules t m)) \<Longrightarrow>
   x \<in> dom (exportedSymbols (astModules t' m))"
  unfolding tableExtends_def by blast

lemma tableExtends_children:
  "tableExtends t t' \<Longrightarrow> d < nextAstDeclaration t \<Longrightarrow>
   c \<in> set (children (astDeclarationObjs t d)) \<Longrightarrow>
   c \<in> set (children (astDeclarationObjs t' d))"
  unfolding tableExtends_def by blast

lemma tableExtends_referenced:
  "tableExtends t t' \<Longrightarrow> d < nextAstDeclaration t \<Longrightarrow>
   r \<in> set (referencedAstSymbols (astDeclarationObjs t d)) \<Longrightarrow>
   r \<in> set (referencedAstSymbols (astDeclarationObjs t' d))"
  unfolding tableExtends_def by blast

lemma tableExtends_wf:
  "tableExtends t t' \<Longrightarrow> tableWellFormed t \<Longrightarrow> tableWellFormed t'"
  unfolding tableExtends_def by blast

text \<open>
  A step that leaves the caches and the objects constructed so far as they are, up to
  what \<open>tableExtends\<close> allows, extends the table provided it keeps it well-formed.
\<close>

lemma tableExtendsI:
  assumes "\<And>k h. astSymbolsBySymbol t k = Some h \<Longrightarrow> astSymbolsBySymbol t' k = Some h"
    and "\<And>k h. astSymbolsByImportKey t k = Some h \<Longrightarrow> astSymbolsByImportKey t' k = Some h"
    and "\<And>k h. astModulesBySourceFile t k = Some h \<Longrightarrow> astModulesBySourceFile t' k = Some h"
    and "nextAstSymbol t \<le> nextAstSymbol t'" and "nextAstDeclaration t \<le> nextAstDeclaration t'"
    and "nextAstModule t \<le> nextAstModule t'"
    and "\<And>x. x < nextAstSymbol t \<Longrightarrow> symbolKept (astSymbols t x) (astSymbols t' x)"
    and "\<And>m. m < nextAstModule t \<Longrightarrow>
           set (starExportedModules (astModules t m)) \<subseteq> set (starExportedModules (astModules t' m))
           \<and> dom (exportedSymbols (astModules t m)) \<subseteq> dom (exportedSymbols (astModules t' m))"
    and "\<And>d. d < nextAstDeclaration t \<Longrightarrow>
           set (children (astDeclarationObjs t d)) \<subseteq> set (children (astDeclarationObjs t' d))
           \<and> set (referencedAstSymbols (astDeclarationObjs t d))
                 \<subseteq> set (referencedAstSymbols (astDeclarationObjs t' d))"
    and "tableWellFormed t \<Longrightarrow> tableWellFormed t'"
  shows "tableExtends t t'"
  unfolding tableExtends_def using assms by blast

lemma tableExtends_trans:
  assumes "tableExtends t t1" and "tableExtends t1 t2"
  shows "tableExtends t t2"
proof (rule tableExtendsI)
  show "nextAstSymbol t \<le> nextAstSymbol t2"
    using assms[THEN tableExtends_next] by simp
  show "nextAstDeclaration t \<le> nextAstDeclaration t2"
    using assms[THEN tableExtends_nextDeclaration] by simp
  show "nextAstModule t \<le> nextAstModule t2"
    using assms[THEN tableExtends_nextModule] by simp
  show "tableWellFormed t \<Longrightarrow> tableWellFormed t2"
    using assms by (blast intro: tableExtends_wf)
next
  fix x assume x: "x < nextAstSymbol t"
  then have "x < nextAstSymbol t1" using assms(1)[THEN tableExtends_next] by simp
  with x assms show "symbolKept (astSymbols t x) (astSymbols t2 x)"
    by (blast intro: symbolKept_trans tableExtends_kept)
next
  fix m assume m: "m < nextAstModule t"
  then have "m < nextAstModule t1" using assms(1)[THEN tableExtends_nextModule] by simp
  with m assms show "set (starExportedModules (astModules t m))
             \<subseteq> set (starExportedModules (astModules t2 m))
           \<and> dom (exportedSymbols (astModules t m)) \<subseteq> dom (exportedSymbols (astModules t2 m))"
    by (meson subsetI tableExtends_stars tableExtends_exported)
next
  fix d assume d: "d < nextAstDeclaration t"
  then have "d < nextAstDeclaration t1" using assms(1)[THEN tableExtends_nextDeclaration] by simp
  with d assms show "set (children (astDeclarationObjs t d)) \<subseteq> set (children (astDeclarationObjs t2 d))
           \<and> set (referencedAstSymbols (astDeclarationObjs t d))
                 \<subseteq> set (referencedAstSymbols (astDeclarationObjs t2 d))"
    by (blast intro: tableExtends_children tableExtends_referenced)
qed (use assms in \<open>blast intro: tableExtends_bySymbol tableExtends_byImportKey tableExtends_byModule\<close>)+

lemma wf_bySymbol:
  "tableWellFormed t \<Longrightarrow> astSymbolsBySymbol t k = Some h \<Longrightarrow> h < nextAstSymbol t"
  unfolding tableWellFormed_def by blast

lemma wf_byImportKey:
  "tableWellFormed t \<Longrightarrow> astSymbolsByImportKey t k = Some h \<Longrightarrow> h < nextAstSymbol t"
  unfolding tableWellFormed_def by blast

lemma wf_root:
  "tableWellFormed t \<Longrightarrow> a < nextAstSymbol t \<Longrightarrow> rootAstSymbol (astSymbols t a) < nextAstSymbol t"
  unfolding tableWellFormed_def by blast

lemma wf_nominal:
  "tableWellFormed t \<Longrightarrow> a < nextAstSymbol t \<Longrightarrow> nominal (astSymbols t a) \<Longrightarrow>
   rootAstSymbol (astSymbols t a) = a"
  unfolding tableWellFormed_def by blast

lemma wf_astDeclarations:
  "tableWellFormed t \<Longrightarrow> a < nextAstSymbol t \<Longrightarrow> d \<in> set (astDeclarations (astSymbols t a)) \<Longrightarrow>
   d < nextAstDeclaration t"
  unfolding tableWellFormed_def by blast

lemma wf_children:
  "tableWellFormed t \<Longrightarrow> d < nextAstDeclaration t \<Longrightarrow> c \<in> set (children (astDeclarationObjs t d)) \<Longrightarrow>
   c < nextAstDeclaration t"
  unfolding tableWellFormed_def by blast

lemma wf_referenced:
  "tableWellFormed t \<Longrightarrow> d < nextAstDeclaration t \<Longrightarrow>
   r \<in> set (referencedAstSymbols (astDeclarationObjs t d)) \<Longrightarrow> r < nextAstSymbol t"
  unfolding tableWellFormed_def by blast

lemma tableWellFormedI:
  assumes "\<And>k h. astSymbolsBySymbol t k = Some h \<Longrightarrow> h < nextAstSymbol t"
    and "\<And>k h. astSymbolsByImportKey t k = Some h \<Longrightarrow> h < nextAstSymbol t"
    and "\<And>a. a < nextAstSymbol t \<Longrightarrow> rootAstSymbol (astSymbols t a) < nextAstSymbol t"
    and "\<And>a. a < nextAstSymbol t \<Longrightarrow> nominal (astSymbols t a) \<Longrightarrow> rootAstSymbol (astSymbols t a) = a"
    and "\<And>a d. a < nextAstSymbol t \<Longrightarrow> d \<in> set (astDeclarations (astSymbols t a)) \<Longrightarrow>
           d < nextAstDeclaration t"
    and "\<And>d c. d < nextAstDeclaration t \<Longrightarrow> c \<in> set (children (astDeclarationObjs t d)) \<Longrightarrow>
           c < nextAstDeclaration t"
    and "\<And>d r. d < nextAstDeclaration t \<Longrightarrow>
           r \<in> set (referencedAstSymbols (astDeclarationObjs t d)) \<Longrightarrow> r < nextAstSymbol t"
  shows "tableWellFormed t"
  unfolding tableWellFormed_def using assms by blast

lemma tableWellFormed_cong:
  assumes "astSymbolsBySymbol t' = astSymbolsBySymbol t"
    and "astSymbolsByImportKey t' = astSymbolsByImportKey t"
    and "nextAstSymbol t' = nextAstSymbol t" and "nextAstDeclaration t' = nextAstDeclaration t"
    and "astSymbols t' = astSymbols t" and "astDeclarationObjs t' = astDeclarationObjs t"
  shows "tableWellFormed t' = tableWellFormed t"
  unfolding tableWellFormed_def assms ..

lemma newAstDeclaration_wf:
  assumes "tableWellFormed t"
  shows "tableWellFormed (snd (newAstDeclaration decl s p t))"
proof -
  let ?t' = "snd (newAstDeclaration decl s p t)"
  have n: "nextAstSymbol ?t' = nextAstSymbol t" "nextAstDeclaration ?t' = Suc (nextAstDeclaration t)"
    "astSymbolsBySymbol ?t' = astSymbolsBySymbol t" "astSymbolsByImportKey ?t' = astSymbolsByImportKey t"
    by (simp_all add: newAstDeclaration_def Let_def)
  have sy: "rootAstSymbol (astSymbols ?t' a) = rootAstSymbol (astSymbols t a)
              \<and> nominal (astSymbols ?t' a) = nominal (astSymbols t a)
              \<and> set (astDeclarations (astSymbols ?t' a))
                   \<subseteq> insert (nextAstDeclaration t) (set (astDeclarations (astSymbols t a)))" for a
    by (auto simp add: newAstDeclaration_def Let_def)
  have de: "set (children (astDeclarationObjs ?t' d))
                   \<subseteq> insert (nextAstDeclaration t) (set (children (astDeclarationObjs t d)))
              \<and> (d \<noteq> nextAstDeclaration t \<longrightarrow>
                    referencedAstSymbols (astDeclarationObjs ?t' d)
                      = referencedAstSymbols (astDeclarationObjs t d))
              \<and> (d = nextAstDeclaration t \<longrightarrow>
                    set (children (astDeclarationObjs ?t' d)) \<subseteq> {nextAstDeclaration t}
                    \<and> referencedAstSymbols (astDeclarationObjs ?t' d) = [])" for d
    by (cases p) (auto simp add: newAstDeclaration_def Let_def)
  show ?thesis
  proof (rule tableWellFormedI)
    fix k h assume "astSymbolsBySymbol ?t' k = Some h"
    then show "h < nextAstSymbol ?t'" using assms n by (auto intro: wf_bySymbol)
  next
    fix k h assume "astSymbolsByImportKey ?t' k = Some h"
    then show "h < nextAstSymbol ?t'" using assms n by (auto intro: wf_byImportKey)
  next
    fix a assume "a < nextAstSymbol ?t'"
    then show "rootAstSymbol (astSymbols ?t' a) < nextAstSymbol ?t'"
      using wf_root[OF assms, of a] sy[of a] n by simp
  next
    fix a assume "a < nextAstSymbol ?t'" "nominal (astSymbols ?t' a)"
    then show "rootAstSymbol (astSymbols ?t' a) = a"
      using wf_nominal[OF assms, of a] sy[of a] n by simp
  next
    fix a d assume a: "a < nextAstSymbol ?t'" and "d \<in> set (astDeclarations (astSymbols ?t' a))"
    with sy[of a] have "d = nextAstDeclaration t \<or> d \<in> set (astDeclarations (astSymbols t a))"
      by blast
    then show "d < nextAstDeclaration ?t'"
      using wf_astDeclarations[OF assms, of a d] a n by auto
  next
    fix d c assume d: "d < nextAstDeclaration ?t'"
      and "c \<in> set (children (astDeclarationObjs ?t' d))"
    with de[of d] have "c = nextAstDeclaration t
        \<or> c \<in> set (children (astDeclarationObjs t d)) \<and> d \<noteq> nextAstDeclaration t"
      by blast
    then show "c < nextAstDeclaration ?t'"
      using wf_children[OF assms, of d c] d n by auto
  next
    fix d r assume d: "d < nextAstDeclaration ?t'"
      and r: "r \<in> set (referencedAstSymbols (astDeclarationObjs ?t' d))"
    with de[of d] have "d \<noteq> nextAstDeclaration t" "r \<in> set (referencedAstSymbols (astDeclarationObjs t d))"
      by auto
    then show "r < nextAstSymbol ?t'"
      using wf_referenced[OF assms, of d r] d n by auto
  qed
qed

lemma newAstDeclaration_extends':
  "tableExtends t (snd (newAstDeclaration decl s p t))"
proof (rule tableExtendsI)
  show "tableWellFormed t \<Longrightarrow> tableWellFormed (snd (newAstDeclaration decl s p t))"
    by (rule newAstDeclaration_wf)
next
  fix d assume "d < nextAstDeclaration t"
  then show "set (children (astDeclarationObjs t d))
           \<subseteq> set (children (astDeclarationObjs (snd (newAstDeclaration decl s p t)) d))
         \<and> set (referencedAstSymbols (astDeclarationObjs t d))
           \<subseteq> set (referencedAstSymbols (astDeclarationObjs (snd (newAstDeclaration decl s p t)) d))"
    by (cases p) (auto simp add: newAstDeclaration_def Let_def)
qed (auto simp add: newAstDeclaration_def Let_def symbolKept_def)

lemma newAstDeclaration_extends:
  "newAstDeclaration decl s p t = (d, t') \<Longrightarrow> tableExtends t t'"
  using newAstDeclaration_extends'[of t decl s p] by simp

lemma newAstDeclaration_caches:
  "newAstDeclaration decl s p t = (d, t') \<Longrightarrow>
     astSymbolsBySymbol t' = astSymbolsBySymbol t \<and> astSymbolsByImportKey t' = astSymbolsByImportKey t
     \<and> astDeclarationsByDeclaration t' = astDeclarationsByDeclaration t
     \<and> nextAstSymbol t' = nextAstSymbol t \<and> d = nextAstDeclaration t
     \<and> nextAstDeclaration t' = Suc (nextAstDeclaration t)"
  by (auto simp: newAstDeclaration_def Let_def split: option.splits)

lemma setDeclaration_extends:
  "tableExtends t (t\<lparr> astDeclarationsByDeclaration := x \<rparr>)"
proof (rule tableExtendsI)
  show "tableWellFormed t \<Longrightarrow> tableWellFormed (t\<lparr> astDeclarationsByDeclaration := x \<rparr>)"
    by (subst tableWellFormed_cong[of _ t]) simp_all
qed simp_all

lemma createAstDeclarations_extends:
  "createAstDeclarations P a p ds t = Inr t' \<Longrightarrow> tableExtends t t'"
proof (induction ds arbitrary: t)
  case Nil
  then show ?case by simp
next
  case (Cons d ds)
  obtain pd where pd: "(case p of None \<Rightarrow> Inr None
            | Some _ \<Rightarrow>
                (case tryFindFirstAstDeclarationParent P d of
                   None \<Rightarrow> Inl MissingParentDeclaration
                 | Some parentDeclaration \<Rightarrow>
                     (case astDeclarationsByDeclaration t parentDeclaration of
                        None \<Rightarrow> Inl MissingParentAstDeclaration
                      | Some pd \<Rightarrow> Inr (Some pd)))) = Inr pd"
    using Cons.prems by (cases "(case p of None \<Rightarrow> Inr None
            | Some _ \<Rightarrow>
                (case tryFindFirstAstDeclarationParent P d of
                   None \<Rightarrow> (Inl MissingParentDeclaration :: error + nat option)
                 | Some parentDeclaration \<Rightarrow>
                     (case astDeclarationsByDeclaration t parentDeclaration of
                        None \<Rightarrow> Inl MissingParentAstDeclaration
                      | Some pd \<Rightarrow> Inr (Some pd))))") auto
  obtain dr t1 where n: "newAstDeclaration d a pd t = (dr, t1)" by fastforce
  let ?t1 = "t1\<lparr> astDeclarationsByDeclaration := (astDeclarationsByDeclaration t1)(d \<mapsto> dr) \<rparr>"
  from Cons.prems pd n have rec: "createAstDeclarations P a p ds ?t1 = Inr t'" by simp
  have "tableExtends t t1" using n by (rule newAstDeclaration_extends)
  moreover have "tableExtends t1 ?t1" by (rule setDeclaration_extends)
  moreover have "tableExtends ?t1 t'" using rec by (rule Cons.IH)
  ultimately show ?case by (blast intro: tableExtends_trans)
qed

lemma createAstDeclarations_caches:
  "createAstDeclarations P a p ds t = Inr t' \<Longrightarrow>
     astSymbolsBySymbol t' = astSymbolsBySymbol t \<and> astSymbolsByImportKey t' = astSymbolsByImportKey t
     \<and> nextAstSymbol t' = nextAstSymbol t"
proof (induction ds arbitrary: t)
  case Nil
  then show ?case by simp
next
  case (Cons d ds)
  then show ?case
    by (auto simp: newAstDeclaration_def Let_def split: option.splits sum.splits prod.splits)
qed

lemma importCheck_result:
  "importCheck imp a t = Inr (r, t') \<Longrightarrow> r = Some a \<and> t' = t \<and> (imp \<noteq> None \<longrightarrow> imported (astSymbols t a))"
  by (auto simp: importCheck_def split: if_splits)

lemma newAstSymbol_wf:
  assumes "tableWellFormed t"
    and "\<And>p'. p = Some p' \<Longrightarrow> p' < nextAstSymbol t"
    and "n \<Longrightarrow> p = None"
  shows "tableWellFormed (snd (newAstSymbol P s imp p n t))"
proof -
  let ?t' = "snd (newAstSymbol P s imp p n t)"
  let ?a = "nextAstSymbol t"
  have n: "nextAstSymbol ?t' = Suc ?a" "nextAstDeclaration ?t' = nextAstDeclaration t"
    "astDeclarationObjs ?t' = astDeclarationObjs t"
    by (cases imp; simp add: newAstSymbol_def Let_def)+
  have by1: "astSymbolsBySymbol ?t' k = Some h \<Longrightarrow> h = ?a \<or> astSymbolsBySymbol t k = Some h" for k h
    by (cases imp) (auto simp add: newAstSymbol_def Let_def split: if_splits)
  have by2: "astSymbolsByImportKey ?t' k = Some h \<Longrightarrow> h = ?a \<or> astSymbolsByImportKey t k = Some h" for k h
    by (cases imp) (auto simp add: newAstSymbol_def Let_def split: if_splits)
  have old: "x \<noteq> ?a \<Longrightarrow> astSymbols ?t' x = astSymbols t x" for x
    by (cases imp) (auto simp add: newAstSymbol_def Let_def)
  have new: "rootAstSymbol (astSymbols ?t' ?a)
               = (case p of None \<Rightarrow> ?a | Some p' \<Rightarrow> rootAstSymbol (astSymbols t p'))"
    "nominal (astSymbols ?t' ?a) = n" "astDeclarations (astSymbols ?t' ?a) = []"
    by (cases imp; simp add: newAstSymbol_def Let_def)+
  show ?thesis
  proof (rule tableWellFormedI)
    fix k h assume "astSymbolsBySymbol ?t' k = Some h"
    then show "h < nextAstSymbol ?t'" using by1[of k h] wf_bySymbol[OF assms(1), of k h] n by auto
  next
    fix k h assume "astSymbolsByImportKey ?t' k = Some h"
    then show "h < nextAstSymbol ?t'" using by2[of k h] wf_byImportKey[OF assms(1), of k h] n by auto
  next
    fix a assume a: "a < nextAstSymbol ?t'"
    show "rootAstSymbol (astSymbols ?t' a) < nextAstSymbol ?t'"
    proof (cases "a = ?a")
      case False
      with a n have "a < ?a" by simp
      with wf_root[OF assms(1), of a] old[OF False] n show ?thesis by simp
    next
      case True
      show ?thesis
      proof (cases p)
        case None
        with True new n show ?thesis by simp
      next
        case (Some p')
        with assms(2) have "p' < ?a" by simp
        with wf_root[OF assms(1), of p'] True new Some n show ?thesis by simp
      qed
    qed
  next
    fix a assume a: "a < nextAstSymbol ?t'" and nom: "nominal (astSymbols ?t' a)"
    show "rootAstSymbol (astSymbols ?t' a) = a"
    proof (cases "a = ?a")
      case False
      with a n have "a < ?a" by simp
      with wf_nominal[OF assms(1), of a] old[OF False] nom show ?thesis by simp
    next
      case True
      with nom new have "n" by simp
      with assms(3) have "p = None" by simp
      with True new show ?thesis by simp
    qed
  next
    fix a d assume a: "a < nextAstSymbol ?t'" and d: "d \<in> set (astDeclarations (astSymbols ?t' a))"
    show "d < nextAstDeclaration ?t'"
    proof (cases "a = ?a")
      case False
      with a n have "a < ?a" by simp
      with wf_astDeclarations[OF assms(1), of a d] old[OF False] d n show ?thesis by simp
    next
      case True
      with d new show ?thesis by simp
    qed
  next
    fix d c assume "d < nextAstDeclaration ?t'" "c \<in> set (children (astDeclarationObjs ?t' d))"
    then show "c < nextAstDeclaration ?t'"
      using wf_children[OF assms(1), of d c] n by simp
  next
    fix d r assume "d < nextAstDeclaration ?t'"
      "r \<in> set (referencedAstSymbols (astDeclarationObjs ?t' d))"
    then show "r < nextAstSymbol ?t'"
      using wf_referenced[OF assms(1), of d r] n by simp
  qed
qed

lemma newAstSymbol_extends':
  assumes "tableExtends t0 t" and "astSymbolsBySymbol t0 s = None"
    and "\<forall>i. imp = Some i \<longrightarrow> astSymbolsByImportKey t0 (key i) = None"
    and "\<And>p'. tableWellFormed t \<Longrightarrow> p = Some p' \<Longrightarrow> p' < nextAstSymbol t"
    and "n \<Longrightarrow> p = None"
  shows "tableExtends t0 (snd (newAstSymbol P s imp p n t))"
proof -
  let ?t' = "snd (newAstSymbol P s imp p n t)"
  have n: "nextAstSymbol ?t' = Suc (nextAstSymbol t)" "nextAstDeclaration ?t' = nextAstDeclaration t"
    "astDeclarationObjs ?t' = astDeclarationObjs t" "nextAstModule ?t' = nextAstModule t"
    "astModules ?t' = astModules t" "astModulesBySourceFile ?t' = astModulesBySourceFile t"
    by (cases imp; simp add: newAstSymbol_def Let_def)+
  have old: "x \<noteq> nextAstSymbol t \<Longrightarrow> astSymbols ?t' x = astSymbols t x" for x
    by (cases imp) (auto simp add: newAstSymbol_def Let_def)
  have by1: "k \<noteq> s \<Longrightarrow> astSymbolsBySymbol ?t' k = astSymbolsBySymbol t k" for k
    by (cases imp) (auto simp add: newAstSymbol_def Let_def)
  have by2: "(\<forall>i. imp = Some i \<longrightarrow> k \<noteq> key i) \<Longrightarrow> astSymbolsByImportKey ?t' k = astSymbolsByImportKey t k" for k
    by (cases imp) (auto simp add: newAstSymbol_def Let_def)
  show ?thesis
  proof (rule tableExtendsI)
    fix k h assume kh: "astSymbolsBySymbol t0 k = Some h"
    with assms(2) have "k \<noteq> s" by auto
    with kh tableExtends_bySymbol[OF assms(1) kh] by1 show "astSymbolsBySymbol ?t' k = Some h" by simp
  next
    fix k h assume kh: "astSymbolsByImportKey t0 k = Some h"
    with assms(3) have "\<forall>i. imp = Some i \<longrightarrow> k \<noteq> key i" by auto
    with tableExtends_byImportKey[OF assms(1) kh] by2 show "astSymbolsByImportKey ?t' k = Some h" by simp
  next
    fix k h assume "astModulesBySourceFile t0 k = Some h"
    then show "astModulesBySourceFile ?t' k = Some h"
      using tableExtends_byModule[OF assms(1)] n by simp
  next
    show "nextAstSymbol t0 \<le> nextAstSymbol ?t'" using tableExtends_next[OF assms(1)] n by simp
    show "nextAstDeclaration t0 \<le> nextAstDeclaration ?t'"
      using tableExtends_nextDeclaration[OF assms(1)] n by simp
    show "nextAstModule t0 \<le> nextAstModule ?t'" using tableExtends_nextModule[OF assms(1)] n by simp
  next
    fix x assume x: "x < nextAstSymbol t0"
    with tableExtends_next[OF assms(1)] have "x \<noteq> nextAstSymbol t" by simp
    with tableExtends_kept[OF assms(1) x] old show "symbolKept (astSymbols t0 x) (astSymbols ?t' x)"
      by simp
  next
    fix m assume "m < nextAstModule t0"
    then show "set (starExportedModules (astModules t0 m)) \<subseteq> set (starExportedModules (astModules ?t' m))
           \<and> dom (exportedSymbols (astModules t0 m)) \<subseteq> dom (exportedSymbols (astModules ?t' m))"
      unfolding n(5) by (meson subsetI tableExtends_stars[OF assms(1)] tableExtends_exported[OF assms(1)])
  next
    fix d assume "d < nextAstDeclaration t0"
    then show "set (children (astDeclarationObjs t0 d)) \<subseteq> set (children (astDeclarationObjs ?t' d))
           \<and> set (referencedAstSymbols (astDeclarationObjs t0 d))
                 \<subseteq> set (referencedAstSymbols (astDeclarationObjs ?t' d))"
      using tableExtends_children[OF assms(1)] tableExtends_referenced[OF assms(1)] n by auto
  next
    assume "tableWellFormed t0"
    then have "tableWellFormed t" using assms(1) by (blast intro: tableExtends_wf)
    then show "tableWellFormed ?t'" using assms(4,5) by (intro newAstSymbol_wf) auto
  qed
qed

lemma newAstSymbol_extends:
  "newAstSymbol P s imp p n t = (a, t') \<Longrightarrow> tableExtends t0 t \<Longrightarrow> astSymbolsBySymbol t0 s = None \<Longrightarrow>
   (\<forall>i. imp = Some i \<longrightarrow> astSymbolsByImportKey t0 (key i) = None) \<Longrightarrow>
   (\<And>p'. tableWellFormed t \<Longrightarrow> p = Some p' \<Longrightarrow> p' < nextAstSymbol t) \<Longrightarrow>
   (n \<Longrightarrow> p = None) \<Longrightarrow> tableExtends t0 t'"
  using newAstSymbol_extends'[of t0 t s imp p n P] by simp

lemma newAstSymbol_result:
  "newAstSymbol P s imp p n t = (a, t') \<Longrightarrow>
     a = nextAstSymbol t \<and> nextAstSymbol t' = Suc a \<and> astSymbolsBySymbol t' s = Some a
     \<and> (\<forall>i. imp = Some i \<longrightarrow> astSymbolsByImportKey t' (key i) = Some a)
     \<and> (imp = None \<longrightarrow> astSymbolsByImportKey t' = astSymbolsByImportKey t)"
  by (auto simp: newAstSymbol_def Let_def split: option.splits)

lemma constructAstSymbol_extends:
  assumes "constructAstSymbol P s imp p n t = Inr (r, t')"
    and "tableExtends t0 t"
    and "astSymbolsBySymbol t0 s = None"
    and "\<forall>i. imp = Some i \<longrightarrow> astSymbolsByImportKey t0 (key i) = None"
    and "\<And>p'. tableWellFormed t \<Longrightarrow> p = Some p' \<Longrightarrow> p' < nextAstSymbol t"
    and "n \<Longrightarrow> p = None"
  shows "tableExtends t0 t'"
proof -
  obtain a t3 where n: "newAstSymbol P s imp p n t = (a, t3)" by fastforce
  with assms(1) obtain t4 where c: "createAstDeclarations P a p (symbolDeclarations P s) t3 = Inr t4"
    and i: "importCheck imp a t4 = Inr (r, t')"
    by (auto simp: constructAstSymbol_def split: sum.splits)
  have "tableExtends t0 t3" using n assms(2,3,4,5,6) by (rule newAstSymbol_extends)
  moreover have "tableExtends t3 t4" using c by (rule createAstDeclarations_extends)
  moreover have "t' = t4" using i by (simp add: importCheck_result)
  ultimately show ?thesis by (blast intro: tableExtends_trans)
qed

lemma constructAstSymbol_result:
  assumes "constructAstSymbol P s imp p n t = Inr (r, t')"
  shows "r = Some (nextAstSymbol t) \<and> nextAstSymbol t' = Suc (nextAstSymbol t)
         \<and> astSymbolsBySymbol t' s = Some (nextAstSymbol t)
         \<and> (\<forall>i. imp = Some i \<longrightarrow> astSymbolsByImportKey t' (key i) = Some (nextAstSymbol t))
         \<and> (imp = None \<longrightarrow> astSymbolsByImportKey t' = astSymbolsByImportKey t)
         \<and> (imp \<noteq> None \<longrightarrow> imported (astSymbols t' (nextAstSymbol t)))"
proof -
  obtain a t3 where n: "newAstSymbol P s imp p n t = (a, t3)" by fastforce
  with assms(1) obtain t4 where c: "createAstDeclarations P a p (symbolDeclarations P s) t3 = Inr t4"
    and i: "importCheck imp a t4 = Inr (r, t')"
    by (auto simp: constructAstSymbol_def split: sum.splits)
  from i have "r = Some a" "t' = t4" "imp \<noteq> None \<longrightarrow> imported (astSymbols t4 a)"
    by (simp_all add: importCheck_result)
  with newAstSymbol_result[OF n] createAstDeclarations_caches[OF c] show ?thesis by simp
qed

lemma bind_extends:
  assumes "astSymbolsBySymbol t s = None" and "astSymbolsByImportKey t k = Some a"
  shows "tableExtends t (t\<lparr> astSymbolsBySymbol := (astSymbolsBySymbol t)(s \<mapsto> a) \<rparr>)"
proof (rule tableExtendsI)
  assume wf: "tableWellFormed t"
  show "tableWellFormed (t\<lparr> astSymbolsBySymbol := (astSymbolsBySymbol t)(s \<mapsto> a) \<rparr>)"
  proof (rule tableWellFormedI)
    fix k' h
    assume "astSymbolsBySymbol (t\<lparr> astSymbolsBySymbol := (astSymbolsBySymbol t)(s \<mapsto> a) \<rparr>) k' = Some h"
    then have "h = a \<or> astSymbolsBySymbol t k' = Some h" by (auto split: if_splits)
    then show "h < nextAstSymbol (t\<lparr> astSymbolsBySymbol := (astSymbolsBySymbol t)(s \<mapsto> a) \<rparr>)"
      using wf_bySymbol[OF wf, of k' h] wf_byImportKey[OF wf assms(2)] by auto
  qed (use wf in \<open>auto intro: wf_byImportKey wf_root wf_nominal wf_astDeclarations wf_children wf_referenced\<close>)
qed (use assms in auto)

lemma fetch_Suc_cases:
  assumes "fetchAstSymbol (Suc fuel) P s add imp t = Inr (r, t')"
  obtains
    (Filtered) "filteredFlags P s \<or> isAmbient P s" "r = None" "t' = t"
  | (Hit) a where "\<not> filteredFlags P s" "\<not> isAmbient P s" "astSymbolsBySymbol t s = Some a"
      "importCheck imp a t = Inr (r, t')"
  | (Merge) i a where "\<not> filteredFlags P s" "\<not> isAmbient P s" "astSymbolsBySymbol t s = None"
      "symbolDeclarations P s \<noteq> []" "imp = Some i" "astSymbolsByImportKey t (key i) = Some a"
      "importCheck imp a (t\<lparr> astSymbolsBySymbol := (astSymbolsBySymbol t)(s \<mapsto> a) \<rparr>) = Inr (r, t')"
  | (NewRoot) n where "\<not> filteredFlags P s" "\<not> isAmbient P s" "astSymbolsBySymbol t s = None"
      "symbolDeclarations P s \<noteq> []" "\<forall>i. imp = Some i \<longrightarrow> astSymbolsByImportKey t (key i) = None"
      "constructAstSymbol P s imp None n t = Inr (r, t')"
  | (NewChild) ps p t1 where "\<not> filteredFlags P s" "\<not> isAmbient P s" "astSymbolsBySymbol t s = None"
      "symbolDeclarations P s \<noteq> []" "\<forall>i. imp = Some i \<longrightarrow> astSymbolsByImportKey t (key i) = None"
      "fetchAstSymbol fuel P ps add None t = Inr (Some p, t1)"
      "constructAstSymbol P s imp (Some p) False t1 = Inr (r, t')"
  using assms
  by (auto split: if_splits option.splits list.splits sum.splits prod.splits)

lemma fetch_bound:
  "fetchAstSymbol fuel P s add imp t = Inr (Some a, t') \<Longrightarrow> astSymbolsBySymbol t' s = Some a"
proof (cases fuel)
  case 0
  then show "fetchAstSymbol fuel P s add imp t = Inr (Some a, t') \<Longrightarrow> ?thesis" by simp
next
  case (Suc n)
  assume "fetchAstSymbol fuel P s add imp t = Inr (Some a, t')"
  with Suc have "fetchAstSymbol (Suc n) P s add imp t = Inr (Some a, t')" by simp
  then show ?thesis
    by (cases rule: fetch_Suc_cases) (auto dest!: importCheck_result constructAstSymbol_result)
qed

lemma fetch_extends:
  "fetchAstSymbol fuel P s add imp t = Inr (r, t') \<Longrightarrow> tableExtends t t'"
proof (induction fuel arbitrary: s imp t r t')
  case 0
  then show ?case by simp
next
  case (Suc fuel)
  from Suc.prems show ?case
  proof (cases rule: fetch_Suc_cases)
    case Filtered
    then show ?thesis by simp
  next
    case (Hit a)
    then show ?thesis by (auto dest!: importCheck_result)
  next
    case (Merge i a)
    then show ?thesis by (auto dest!: importCheck_result intro: bind_extends)
  next
    case (NewRoot n)
    from NewRoot(6) show ?thesis
      by (rule constructAstSymbol_extends) (use NewRoot in simp_all)
  next
    case (NewChild ps p t1)
    from NewChild(6) have e: "tableExtends t t1" by (rule Suc.IH)
    from NewChild(6) have b: "astSymbolsBySymbol t1 ps = Some p" by (rule fetch_bound)
    from NewChild(7) e show ?thesis
    proof (rule constructAstSymbol_extends)
      fix p' assume "tableWellFormed t1" "Some p = Some p'"
      with b show "p' < nextAstSymbol t1" by (auto intro: wf_bySymbol)
    qed (use NewChild in simp_all)
  qed
qed

lemma createAstDeclarations_count:
  "createAstDeclarations P a p ds t = Inr t' \<Longrightarrow>
     nextAstDeclaration t' = nextAstDeclaration t + length ds
     \<and> (\<forall>d \<in> set ds. astDeclarationsByDeclaration t' d \<noteq> None)
     \<and> (\<forall>d. astDeclarationsByDeclaration t d \<noteq> None \<longrightarrow> astDeclarationsByDeclaration t' d \<noteq> None)"
proof (induction ds arbitrary: t)
  case Nil
  then show ?case by simp
next
  case (Cons d ds)
  then show ?case
    by (fastforce simp: newAstDeclaration_def Let_def split: option.splits sum.splits prod.splits)
qed

lemma constructAstSymbol_declarations:
  assumes "constructAstSymbol P s imp p n t = Inr (r, t')"
  shows "nextAstDeclaration t' = nextAstDeclaration t + length (symbolDeclarations P s)
         \<and> (\<forall>d \<in> set (symbolDeclarations P s). astDeclarationsByDeclaration t' d \<noteq> None)"
proof -
  obtain a t3 where n: "newAstSymbol P s imp p n t = (a, t3)" by fastforce
  with assms(1) obtain t4 where c: "createAstDeclarations P a p (symbolDeclarations P s) t3 = Inr t4"
    and i: "importCheck imp a t4 = Inr (r, t')"
    by (auto simp: constructAstSymbol_def split: sum.splits)
  from i have "t' = t4" by (simp add: importCheck_result)
  moreover from n have "nextAstDeclaration t3 = nextAstDeclaration t"
    by (auto simp: newAstSymbol_def Let_def split: option.splits)
  ultimately show ?thesis using createAstDeclarations_count[OF c] by simp
qed

lemma fetch_addIfMissing:
  "fetchAstSymbol fuel P s a imp t = fetchAstSymbol fuel P s b imp t"
proof (induction fuel arbitrary: s imp t)
  case 0
  show ?case by simp
next
  case (Suc fuel)
  show ?case unfolding fetchAstSymbol.simps Suc.IH ..
qed

text \<open>The definitions to unfold when the model is run on the small program.\<close>

lemmas example_defs =
  exampleProgram_def emptyTable_def barFromPkg_def ExportStar_def
  TypeParameter_def TypeLiteral_def Transient_def Alias_def key_def
  filteredFlags_def isNominal_def tryFindFirstAstDeclarationParent_def
  newAstDeclaration_def newAstSymbol_def constructAstSymbol_def importCheck_def
  tryGetAstSymbol_def

text \<open>
  Claim C9. The \<open>addIfMissing\<close> flag of \<open>_fetchAstSymbol\<close> is never consulted before a node is
  constructed. Called with \<open>addIfMissing = false\<close> (as \<open>tryGetAstSymbol\<close> does) on an identity
  that passes both filters and is absent from both caches, a call that returns has done
  exactly what it does with \<open>addIfMissing = true\<close>: it has constructed a new Symbol Node
  (a handle that did not exist before), bound the identity to it in the cache, and
  constructed a Declaration Node for every declaration of the identity.
\<close>

theorem C9_addIfMissing_never_consulted:
  assumes "\<not> filteredFlags P s" and "\<not> isAmbient P s"
    and "astSymbolsBySymbol t s = None"
    and "\<forall>i. imp = Some i \<longrightarrow> astSymbolsByImportKey t (key i) = None"
    and "fetchAstSymbol fuel P s False imp t = Inr (r, t')"
  shows "fetchAstSymbol fuel P s True imp t = Inr (r, t')
         \<and> (\<exists>a. r = Some a \<and> nextAstSymbol t \<le> a \<and> nextAstSymbol t' = Suc a
                  \<and> astSymbolsBySymbol t' s = Some a)
         \<and> nextAstDeclaration t + length (symbolDeclarations P s) \<le> nextAstDeclaration t'
         \<and> (\<forall>d \<in> set (symbolDeclarations P s). astDeclarationsByDeclaration t' d \<noteq> None)"
proof -
  have same: "fetchAstSymbol fuel P s True imp t = Inr (r, t')"
    using assms(5) fetch_addIfMissing[of fuel P s True imp t False] by simp
  obtain n where fuel: "fuel = Suc n"
    using assms(5) by (cases fuel) auto
  from assms(5) have run: "fetchAstSymbol (Suc n) P s False imp t = Inr (r, t')"
    by (simp add: fuel)
  from run have rest: "(\<exists>a. r = Some a \<and> nextAstSymbol t \<le> a \<and> nextAstSymbol t' = Suc a
                  \<and> astSymbolsBySymbol t' s = Some a)
         \<and> nextAstDeclaration t + length (symbolDeclarations P s) \<le> nextAstDeclaration t'
         \<and> (\<forall>d \<in> set (symbolDeclarations P s). astDeclarationsByDeclaration t' d \<noteq> None)"
  proof (cases rule: fetch_Suc_cases)
    case Filtered
    with assms(1,2) show ?thesis by simp
  next
    case (Hit a)
    with assms(3) show ?thesis by simp
  next
    case (Merge i a)
    with assms(4) show ?thesis by simp
  next
    case (NewRoot nom)
    from constructAstSymbol_result[OF NewRoot(6)] constructAstSymbol_declarations[OF NewRoot(6)]
    show ?thesis by simp
  next
    case (NewChild ps p t1)
    have "tableExtends t t1" using NewChild(6) by (rule fetch_extends)
    then have "nextAstSymbol t \<le> nextAstSymbol t1" "nextAstDeclaration t \<le> nextAstDeclaration t1"
      by (simp_all add: tableExtends_def)
    with constructAstSymbol_result[OF NewChild(7)] constructAstSymbol_declarations[OF NewChild(7)]
    show ?thesis by simp
  qed
  from same rest show ?thesis by simp
qed

text \<open>
  On the small program: \<open>tryGetAstSymbol\<close> on the class \<open>Foo\<close> in a new table constructs
  Symbol Node 0 and its Declaration Node.
\<close>

theorem C9_witness:
  "\<not> filteredFlags exampleProgram 1 \<and> \<not> isAmbient exampleProgram 1
   \<and> astSymbolsBySymbol emptyTable 1 = None
   \<and> (\<exists>t'. tryGetAstSymbol (Suc 0) exampleProgram 1 emptyTable = Inr (Some 0, t')
          \<and> nextAstSymbol t' = 1 \<and> nextAstDeclaration t' = 1
          \<and> astSymbolsBySymbol t' 1 = Some 0 \<and> astDeclarationsByDeclaration t' 10 \<noteq> None)"
proof -
  have h1: "\<not> filteredFlags exampleProgram 1" by (simp add: example_defs)
  have h2: "\<not> isAmbient exampleProgram 1" by (simp add: example_defs)
  have h3: "astSymbolsBySymbol emptyTable 1 = None" by (simp add: example_defs)
  have h4: "\<forall>i. (None :: AstImportOptions option) = Some i \<longrightarrow> astSymbolsByImportKey emptyTable (key i) = None"
    by simp
  obtain r t' where run: "fetchAstSymbol (Suc 0) exampleProgram 1 False None emptyTable = Inr (r, t')"
    by (simp add: example_defs Let_def)
  have ev: "r = Some 0 \<and> nextAstSymbol t' = 1 \<and> nextAstDeclaration t' = 1"
    using run by (auto simp add: example_defs Let_def)
  have d: "10 \<in> set (symbolDeclarations exampleProgram 1)" by (simp add: example_defs)
  from C9_addIfMissing_never_consulted[OF h1 h2 h3 h4 run]
  obtain a where a: "r = Some a" "astSymbolsBySymbol t' 1 = Some a"
    and ds: "\<forall>d \<in> set (symbolDeclarations exampleProgram 1). astDeclarationsByDeclaration t' d \<noteq> None"
    by blast
  from ds d have "astDeclarationsByDeclaration t' 10 \<noteq> None" by blast
  with a ev h1 h2 h3 run show ?thesis by (simp add: tryGetAstSymbol_def)
qed

lemma fetch_hit:
  "\<not> filteredFlags P s \<Longrightarrow> \<not> isAmbient P s \<Longrightarrow> astSymbolsBySymbol t s = Some a \<Longrightarrow>
   fetchAstSymbol (Suc fuel) P s add imp t = importCheck imp a t"
  by simp

lemma fetch_imported_result:
  assumes "fetchAstSymbol fuel P s add imp t = Inr (Some a, t')" and "imp \<noteq> None"
  shows "imported (astSymbols t' a)"
proof -
  obtain n where "fuel = Suc n" using assms(1) by (cases fuel) auto
  with assms(1) have "fetchAstSymbol (Suc n) P s add imp t = Inr (Some a, t')" by simp
  then show ?thesis using assms(2)
    by (cases rule: fetch_Suc_cases) (auto dest!: importCheck_result constructAstSymbol_result)
qed

text \<open>
  Claim C4, as amended. Whenever \<open>_fetchAstSymbol\<close> is called with an Import Identity and
  the Symbol Node it resolves has a false \<open>imported\<close> flag, it raises the internal error
  (so a call with an Import Identity that returns a node returns an imported one; for a node
  found in the identity cache the error is computed explicitly). The call never sets the
  flag: every Symbol Node that existed before the call has the same \<open>imported\<close> value
  after it, so the flag never goes from true to false, nor from false to true.
\<close>

theorem C4_import_check_never_sets_imported:
  "(fetchAstSymbol fuel P s add imp t = Inr (r, t') \<longrightarrow>
      (imp \<noteq> None \<and> r = Some a \<longrightarrow> imported (astSymbols t' a))
      \<and> (\<forall>x < nextAstSymbol t. imported (astSymbols t' x) = imported (astSymbols t x)))
   \<and> (\<not> filteredFlags P s \<and> \<not> isAmbient P s \<and> astSymbolsBySymbol t s = Some b
        \<and> imp \<noteq> None \<and> \<not> imported (astSymbols t b) \<longrightarrow>
      fetchAstSymbol (Suc fuel) P s add imp t
        = Inl (ImportedAfterNonImported (localName (astSymbols t b)))
      \<and> isInternalError (ImportedAfterNonImported (localName (astSymbols t b))))"
proof (intro conjI impI allI)
  assume run: "fetchAstSymbol fuel P s add imp t = Inr (r, t')"
  { assume "imp \<noteq> None \<and> r = Some a"
    with run show "imported (astSymbols t' a)" by (auto intro: fetch_imported_result) }
  { fix x assume "x < nextAstSymbol t"
    moreover have "tableExtends t t'" using run by (rule fetch_extends)
    ultimately show "imported (astSymbols t' x) = imported (astSymbols t x)"
      by (simp add: tableExtends_def symbolKept_def) }
next
  assume h: "\<not> filteredFlags P s \<and> \<not> isAmbient P s \<and> astSymbolsBySymbol t s = Some b
        \<and> imp \<noteq> None \<and> \<not> imported (astSymbols t b)"
  then show "fetchAstSymbol (Suc fuel) P s add imp t
        = Inl (ImportedAfterNonImported (localName (astSymbols t b)))"
    by (simp add: fetch_hit importCheck_def)
next
  show "isInternalError (ImportedAfterNonImported (localName (astSymbols t b)))" by simp
qed

lemma afterFetchFoo_run:
  "fetchAstSymbol (Suc 0) exampleProgram 1 True None emptyTable = Inr (Some 0, afterFetchFoo)"
  by (simp add: afterFetchFoo_def example_defs Let_def)

lemma afterFetchFoo_fields:
  "astSymbolsBySymbol afterFetchFoo 1 = Some 0" "\<not> imported (astSymbols afterFetchFoo 0)"
  "localName (astSymbols afterFetchFoo 0) = ''Foo''" "nextAstSymbol afterFetchFoo = 1"
  by (simp_all add: afterFetchFoo_def example_defs Let_def)

text \<open>
  Against claim C4 as stated: \<open>Foo\<close> is registered without import identity, so its flag is
  false. A second call without Import Identity finds the node, its flag being false,
  returns it, and leaves the table as it was: the flag is still false, not set to true.
\<close>

theorem C4_counterexample:
  "fetchAstSymbol (Suc 0) exampleProgram 1 True None emptyTable = Inr (Some 0, afterFetchFoo)
   \<and> \<not> imported (astSymbols afterFetchFoo 0)
   \<and> fetchAstSymbol (Suc 0) exampleProgram 1 True None afterFetchFoo = Inr (Some 0, afterFetchFoo)"
proof -
  have "\<not> filteredFlags exampleProgram 1" "\<not> isAmbient exampleProgram 1"
    by (simp_all add: example_defs)
  then have "fetchAstSymbol (Suc 0) exampleProgram 1 True None afterFetchFoo = Inr (Some 0, afterFetchFoo)"
    using afterFetchFoo_fields(1) by (simp add: fetch_hit importCheck_def)
  with afterFetchFoo_run afterFetchFoo_fields show ?thesis by simp
qed

text \<open>
  On the small program: importing \<open>Foo\<close> after it was registered as non-imported raises
  the error; fetching \<open>Bar\<close> with its import identity returns an imported node and leaves
  the flag of \<open>Foo\<close> as it was.
\<close>

theorem C4_witness:
  "fetchAstSymbol (Suc 0) exampleProgram 1 True None emptyTable = Inr (Some 0, afterFetchFoo)
   \<and> \<not> imported (astSymbols afterFetchFoo 0)
   \<and> fetchAstSymbol (Suc 0) exampleProgram 1 True (Some barFromPkg) afterFetchFoo
       = Inl (ImportedAfterNonImported ''Foo'')
   \<and> (\<exists>t'. fetchAstSymbol (Suc 0) exampleProgram 2 True (Some barFromPkg) afterFetchFoo = Inr (Some 1, t')
         \<and> imported (astSymbols t' 1) \<and> \<not> imported (astSymbols t' 0))"
proof -
  have f: "\<not> filteredFlags exampleProgram 1 \<and> \<not> isAmbient exampleProgram 1
        \<and> astSymbolsBySymbol afterFetchFoo 1 = Some 0
        \<and> Some barFromPkg \<noteq> None \<and> \<not> imported (astSymbols afterFetchFoo 0)"
    using afterFetchFoo_fields by (simp add: example_defs)
  have e: "fetchAstSymbol (Suc 0) exampleProgram 1 True (Some barFromPkg) afterFetchFoo
       = Inl (ImportedAfterNonImported ''Foo'')"
    using C4_import_check_never_sets_imported[of 0 exampleProgram 1 True "Some barFromPkg" afterFetchFoo _ _ _ 0]
      f afterFetchFoo_fields(3) by simp
  obtain r t' where run: "fetchAstSymbol (Suc 0) exampleProgram 2 True (Some barFromPkg) afterFetchFoo = Inr (r, t')"
    and r: "r = Some 1"
    by (simp add: afterFetchFoo_def example_defs Let_def)
  from C4_import_check_never_sets_imported[of "Suc 0" exampleProgram 2 True "Some barFromPkg" afterFetchFoo r t' 1 0]
    run r afterFetchFoo_fields
  have "imported (astSymbols t' 1)" "\<not> imported (astSymbols t' 0)" by auto
  with run r e afterFetchFoo_run afterFetchFoo_fields show ?thesis by simp
qed

lemma fetch_miss_registers:
  assumes "fetchAstSymbol fuel P s add (Some i) t = Inr (Some a, t')"
    and "astSymbolsBySymbol t s = None"
  shows "astSymbolsByImportKey t' (key i) = Some a \<and> imported (astSymbols t' a)"
proof -
  obtain n where "fuel = Suc n" using assms(1) by (cases fuel) auto
  with assms(1) have "fetchAstSymbol (Suc n) P s add (Some i) t = Inr (Some a, t')" by simp
  then show ?thesis using assms(2)
    by (cases rule: fetch_Suc_cases) (auto dest!: importCheck_result constructAstSymbol_result)
qed

lemma fetch_merge:
  assumes "\<not> filteredFlags P s" and "\<not> isAmbient P s"
    and "astSymbolsBySymbol t s = None" and "symbolDeclarations P s \<noteq> []"
    and "astSymbolsByImportKey t (key i) = Some a"
  shows "fetchAstSymbol (Suc fuel) P s add (Some i) t
           = importCheck (Some i) a (t\<lparr> astSymbolsBySymbol := (astSymbolsBySymbol t)(s \<mapsto> a) \<rparr>)"
  using assms by (cases "symbolDeclarations P s") simp_all

lemma afterFetchBar_run:
  "fetchAstSymbol (Suc 0) exampleProgram 2 True (Some barFromPkg) emptyTable
     = Inr (Some 0, afterFetchBar)"
  by (simp add: afterFetchBar_def example_defs Let_def)

lemma afterFetchBar_fields:
  "astSymbolsBySymbol afterFetchBar 2 = Some 0" "astSymbolsBySymbol afterFetchBar 3 = None"
  "nextAstSymbol afterFetchBar = 1" "nextAstDeclaration afterFetchBar = 1"
  by (simp_all add: afterFetchBar_def example_defs Let_def)

section \<open>Properties of module resolution\<close>

lemma tryStarExports_total:
  assumes step: "\<And>m V. m \<in> set ms \<Longrightarrow> V0 \<subseteq> V \<Longrightarrow>
                   \<exists>r V'. tryGet m V = Inr (r, V') \<and> V \<subseteq> V'"
    and "V0 \<subseteq> V"
  shows "\<exists>r V'. tryStarExports tryGet ms V = Inr (r, V') \<and> V \<subseteq> V'"
  using assms
proof (induction ms arbitrary: V)
  case Nil
  then show ?case by simp
next
  case (Cons m ms)
  from Cons.prems(1)[of m V] Cons.prems(2)
  obtain r V1 where m: "tryGet m V = Inr (r, V1)" "V \<subseteq> V1" by auto
  show ?case
  proof (cases r)
    case (Some a)
    with m show ?thesis by simp
  next
    case None
    have "\<exists>r V'. tryStarExports tryGet ms V1 = Inr (r, V') \<and> V1 \<subseteq> V'"
    proof (rule Cons.IH)
      show "V0 \<subseteq> V1" using Cons.prems(2) m(2) by blast
    next
      fix m' V' assume "m' \<in> set ms" "V0 \<subseteq> V'"
      then show "\<exists>r V''. tryGet m' V' = Inr (r, V'') \<and> V' \<subseteq> V''"
        using Cons.prems(1)[of m' V'] by simp
    qed
    with m None show ?thesis by auto
  qed
qed

lemma tryGet_total:
  assumes closed: "modulesClosed t"
  shows "m < nextAstModule t \<Longrightarrow> card ({..<nextAstModule t} - V) < fuel \<Longrightarrow>
         \<exists>r V'. tryGetExportOfAstModule fuel t name m V = Inr (r, V') \<and> V \<subseteq> V'"
proof (induction fuel arbitrary: m V)
  case 0
  then show ?case by simp
next
  case (Suc fuel)
  show ?case
  proof (cases "m \<in> V")
    case True
    then show ?thesis by simp
  next
    case False
    let ?U = "{..<nextAstModule t}"
    let ?V1 = "insert m V"
    from False Suc.prems(1) have "?U - ?V1 \<subset> ?U - V" by auto
    then have "card (?U - ?V1) < card (?U - V)" by (simp add: psubset_card_mono)
    with Suc.prems(2) have small: "card (?U - ?V1) < fuel" by simp
    show ?thesis
    proof (cases "exportedSymbols (astModules t m) name")
      case (Some a)
      with False show ?thesis by auto
    next
      case None
      have "\<exists>r V'. tryStarExports (tryGetExportOfAstModule fuel t name)
                      (starExportedModules (astModules t m)) ?V1 = Inr (r, V') \<and> ?V1 \<subseteq> V'"
      proof (rule tryStarExports_total[where ?V0.0 = ?V1])
        fix m' W
        assume m': "m' \<in> set (starExportedModules (astModules t m))" and W: "?V1 \<subseteq> W"
        from closed Suc.prems(1) m' have "m' < nextAstModule t"
          by (auto simp: modulesClosed_def)
        moreover from W have "card (?U - W) \<le> card (?U - ?V1)"
          by (intro card_mono) auto
        with small have "card (?U - W) < fuel" by simp
        ultimately show "\<exists>r V'. tryGetExportOfAstModule fuel t name m' W = Inr (r, V') \<and> W \<subseteq> V'"
          by (rule Suc.IH)
      qed simp
      with False None show ?thesis by auto
    qed
  qed
qed

lemma tryStarExports_found:
  assumes "tryStarExports tryGet ms V = Inr (Some a, V')"
    and "\<And>m W W'. m \<in> set ms \<Longrightarrow> tryGet m W = Inr (Some a, W') \<Longrightarrow> Q m"
  shows "\<exists>m \<in> set ms. Q m"
  using assms
proof (induction ms arbitrary: V)
  case Nil
  then show ?case by simp
next
  case (Cons m ms)
  then show ?case
    by (auto split: sum.splits option.splits prod.splits)
qed

lemma tryGet_found:
  "tryGetExportOfAstModule fuel t name m V = Inr (Some a, V') \<Longrightarrow>
   \<exists>m'. (m, m') \<in> (starEdge t)\<^sup>* \<and> exportedSymbols (astModules t m') name = Some a"
proof (induction fuel arbitrary: m V V')
  case 0
  then show ?case by simp
next
  case (Suc fuel)
  show ?case
  proof (cases "exportedSymbols (astModules t m) name")
    case (Some b)
    with Suc.prems have "b = a" by (auto split: if_splits)
    with Some show ?thesis by blast
  next
    case None
    with Suc.prems have star: "tryStarExports (tryGetExportOfAstModule fuel t name)
        (starExportedModules (astModules t m)) (insert m V) = Inr (Some a, V')"
      by (auto split: if_splits)
    have "\<exists>s \<in> set (starExportedModules (astModules t m)).
            (\<exists>m'. (s, m') \<in> (starEdge t)\<^sup>* \<and> exportedSymbols (astModules t m') name = Some a)"
      using star by (rule tryStarExports_found) (rule Suc.IH)
    then obtain s m' where s: "s \<in> set (starExportedModules (astModules t m))"
      and m': "(s, m') \<in> (starEdge t)\<^sup>*" "exportedSymbols (astModules t m') name = Some a"
      by blast
    from s have "(m, s) \<in> starEdge t" by (simp add: starEdge_def)
    with m' show ?thesis by (blast intro: converse_rtrancl_into_rtrancl)
  qed
qed

text \<open>
  Claim C2. A top-level lookup of a name across wildcard re-exports terminates, also when
  the wildcard re-export graph has cycles: started with the empty visited set on a
  constructed module, the lookup returns (it does not run out of fuel once the fuel exceeds
  the number of modules, whatever the edges between them). Re-entering a module of the
  visited set answers "not found" without recursing. A symbol is only found if a module
  reachable over wildcard re-exports exports the name, so a name exported by no reachable
  module yields "not found".
\<close>

theorem C2_wildcard_lookup_terminates:
  assumes "modulesClosed t" and "astModule < nextAstModule t" and "nextAstModule t < fuel"
  shows "(\<exists>r visited.
            tryGetExportOfAstModule fuel t exportName' astModule {} = Inr (r, visited)
            \<and> (\<forall>a. r = Some a \<longrightarrow>
                  (\<exists>m. (astModule, m) \<in> (starEdge t)\<^sup>*
                       \<and> exportedSymbols (astModules t m) exportName' = Some a)))
         \<and> (\<forall>m visited. m \<in> visited \<longrightarrow>
               tryGetExportOfAstModule fuel t exportName' m visited = Inr (None, visited))"
proof -
  have "card ({..<nextAstModule t} - {}) < fuel" using assms(3) by simp
  from tryGet_total[OF assms(1,2) this]
  obtain r V' where run: "tryGetExportOfAstModule fuel t exportName' astModule {} = Inr (r, V')"
    by blast
  have "\<forall>a. r = Some a \<longrightarrow>
          (\<exists>m. (astModule, m) \<in> (starEdge t)\<^sup>*
               \<and> exportedSymbols (astModules t m) exportName' = Some a)"
    using run by (auto dest: tryGet_found)
  moreover obtain n where "fuel = Suc n" using assms(3) by (cases fuel) auto
  then have "\<forall>m visited. m \<in> visited \<longrightarrow>
               tryGetExportOfAstModule fuel t exportName' m visited = Inr (None, visited)"
    by simp
  ultimately show ?thesis using run by blast
qed

text \<open>More definitions to unfold when module resolution is run on the small program.\<close>

lemmas module_defs =
  fetchSpecifierAstModule_def collectExportsFromExportStar_def addStarExportedModule_def
  setExportedSymbol_def getExportOfAstModule_def newAstModule_def
  setExternalModulePath_def externalPackagePath_def nextAlias_def

lemma afterFetchModuleA_run:
  "fetchAstModuleBySourceFile 6 exampleProgram 100 None emptyTable = Inr (0, afterFetchModuleA)"
  by (simp add: afterFetchModuleA_def eval_nat_numeral example_defs module_defs Let_def)

lemma afterFetchModuleA_modules:
  "nextAstModule afterFetchModuleA = 2"
  "starExportedModules (astModules afterFetchModuleA 0) = [Suc 0]"
  "starExportedModules (astModules afterFetchModuleA (Suc 0)) = [0]"
  "astModulesBySourceFile afterFetchModuleA 100 = Some 0"
  "astModulesBySourceFile afterFetchModuleA 101 = Some (Suc 0)"
  by (simp_all add: afterFetchModuleA_def eval_nat_numeral example_defs module_defs Let_def)

lemma afterFetchModuleA_exports:
  "exportedSymbols (astModules afterFetchModuleA 0) ''Foo'' = Some (Suc 0)"
  "exportedSymbols (astModules afterFetchModuleA 0) ''Y'' = Some 0"
  "exportedSymbols (astModules afterFetchModuleA 0) ''Amb'' = None"
  "exportedSymbols (astModules afterFetchModuleA (Suc 0)) ''X'' = Some 0"
  "exportedSymbols (astModules afterFetchModuleA 0) ''Nope'' = None"
  "exportedSymbols (astModules afterFetchModuleA (Suc 0)) ''Nope'' = None"
  by (simp_all add: afterFetchModuleA_def eval_nat_numeral example_defs module_defs Let_def)

text \<open>
  On the small program: \<^verbatim>\<open>a.ts\<close> and \<^verbatim>\<open>b.ts\<close> wildcard-export each other; looking up a name
  that neither exports visits both and reports "not found".
\<close>

theorem C2_witness:
  "modulesClosed afterFetchModuleA \<and> 0 < nextAstModule afterFetchModuleA
   \<and> nextAstModule afterFetchModuleA < 3
   \<and> (0, 1) \<in> starEdge afterFetchModuleA \<and> (1, 0) \<in> starEdge afterFetchModuleA
   \<and> tryGetExportOfAstModule 3 afterFetchModuleA ''Nope'' 0 {} = Inr (None, {0, 1})"
proof -
  have c: "modulesClosed afterFetchModuleA"
    by (auto simp add: modulesClosed_def less_2_cases_iff afterFetchModuleA_modules)
  have n: "0 < nextAstModule afterFetchModuleA" "nextAstModule afterFetchModuleA < 3"
    by (simp_all add: afterFetchModuleA_modules)
  have e: "(0, 1) \<in> starEdge afterFetchModuleA" "(1, 0) \<in> starEdge afterFetchModuleA"
    by (simp_all add: starEdge_def afterFetchModuleA_modules)
  from C2_wildcard_lookup_terminates[OF c n, of "''Nope''"]
  obtain r visited where
    "tryGetExportOfAstModule 3 afterFetchModuleA ''Nope'' 0 {} = Inr (r, visited)" by blast
  moreover have "tryGetExportOfAstModule 3 afterFetchModuleA ''Nope'' 0 {} = Inr (None, {0, 1})"
    by (simp add: eval_nat_numeral afterFetchModuleA_modules afterFetchModuleA_exports insert_commute)
  ultimately show ?thesis using c n e by simp
qed

section \<open>Every operation extends the table\<close>

lemma forEach_extends:
  assumes "forEach action xs t = Inr t'"
    and "\<And>x u u'. x \<in> set xs \<Longrightarrow> action x u = Inr u' \<Longrightarrow> tableExtends u u'"
  shows "tableExtends t t'"
  using assms
proof (induction xs arbitrary: t)
  case Nil
  then show ?case by simp
next
  case (Cons x xs)
  from Cons.prems(1) obtain t1 where a: "action x t = Inr t1" and r: "forEach action xs t1 = Inr t'"
    by (auto split: sum.splits)
  have "tableExtends t t1" using Cons.prems(2)[of x t t1] a by simp
  moreover have "tableExtends t1 t'" using r Cons.prems(2) by (intro Cons.IH) auto
  ultimately show ?case by (rule tableExtends_trans)
qed

lemma setExportedSymbol_extends: "tableExtends t (setExportedSymbol m name a t)"
proof (rule tableExtendsI)
  show "tableWellFormed t \<Longrightarrow> tableWellFormed (setExportedSymbol m name a t)"
    by (subst tableWellFormed_cong[of _ t]) (simp_all add: setExportedSymbol_def)
qed (auto simp add: setExportedSymbol_def)

lemma addStarExportedModule_extends: "tableExtends t (addStarExportedModule m m' t)"
proof (rule tableExtendsI)
  show "tableWellFormed t \<Longrightarrow> tableWellFormed (addStarExportedModule m m' t)"
    by (subst tableWellFormed_cong[of _ t]) (simp_all add: addStarExportedModule_def)
qed (auto simp add: addStarExportedModule_def)

lemma notifyAnalyzed_extends: "tableExtends t (notifyAnalyzed a t)"
proof (rule tableExtendsI)
  assume wf: "tableWellFormed t"
  let ?t' = "notifyAnalyzed a t"
  have n: "nextAstSymbol ?t' = nextAstSymbol t" "nextAstDeclaration ?t' = nextAstDeclaration t"
    "astDeclarationObjs ?t' = astDeclarationObjs t" "astSymbolsBySymbol ?t' = astSymbolsBySymbol t"
    "astSymbolsByImportKey ?t' = astSymbolsByImportKey t"
    by (simp_all add: notifyAnalyzed_def)
  have f: "rootAstSymbol (astSymbols ?t' x) = rootAstSymbol (astSymbols t x)"
    "nominal (astSymbols ?t' x) = nominal (astSymbols t x)"
    "astDeclarations (astSymbols ?t' x) = astDeclarations (astSymbols t x)" for x
    by (simp_all add: notifyAnalyzed_def)
  show "tableWellFormed ?t'"
  proof (rule tableWellFormedI)
    fix k h assume "astSymbolsBySymbol ?t' k = Some h"
    then show "h < nextAstSymbol ?t'" using wf_bySymbol[OF wf, of k h] n by simp
  next
    fix k h assume "astSymbolsByImportKey ?t' k = Some h"
    then show "h < nextAstSymbol ?t'" using wf_byImportKey[OF wf, of k h] n by simp
  next
    fix x assume "x < nextAstSymbol ?t'"
    then show "rootAstSymbol (astSymbols ?t' x) < nextAstSymbol ?t'"
      using wf_root[OF wf, of x] n f by simp
  next
    fix x assume "x < nextAstSymbol ?t'" "nominal (astSymbols ?t' x)"
    then show "rootAstSymbol (astSymbols ?t' x) = x"
      using wf_nominal[OF wf, of x] n f by simp
  next
    fix x d assume "x < nextAstSymbol ?t'" "d \<in> set (astDeclarations (astSymbols ?t' x))"
    then show "d < nextAstDeclaration ?t'"
      using wf_astDeclarations[OF wf, of x d] n f by simp
  next
    fix d c assume "d < nextAstDeclaration ?t'" "c \<in> set (children (astDeclarationObjs ?t' d))"
    then show "c < nextAstDeclaration ?t'"
      using wf_children[OF wf, of d c] n by simp
  next
    fix d r assume "d < nextAstDeclaration ?t'"
      "r \<in> set (referencedAstSymbols (astDeclarationObjs ?t' d))"
    then show "r < nextAstSymbol ?t'"
      using wf_referenced[OF wf, of d r] n by simp
  qed
qed (simp_all add: notifyAnalyzed_def symbolKept_def)

lemma notifyReferencedAstSymbol_extends:
  assumes "tableWellFormed t \<Longrightarrow> r < nextAstSymbol t"
  shows "tableExtends t (notifyReferencedAstSymbol d r t)"
proof (rule tableExtendsI)
  assume wf: "tableWellFormed t"
  let ?t' = "notifyReferencedAstSymbol d r t"
  have n: "nextAstSymbol ?t' = nextAstSymbol t" "nextAstDeclaration ?t' = nextAstDeclaration t"
    "astSymbols ?t' = astSymbols t" "astSymbolsBySymbol ?t' = astSymbolsBySymbol t"
    "astSymbolsByImportKey ?t' = astSymbolsByImportKey t"
    by (simp_all add: notifyReferencedAstSymbol_def)
  have de: "children (astDeclarationObjs ?t' x) = children (astDeclarationObjs t x)"
    "set (referencedAstSymbols (astDeclarationObjs ?t' x))
       \<subseteq> insert r (set (referencedAstSymbols (astDeclarationObjs t x)))" for x
    by (auto simp add: notifyReferencedAstSymbol_def)
  show "tableWellFormed ?t'"
  proof (rule tableWellFormedI)
    fix x c assume "x < nextAstDeclaration ?t'" "c \<in> set (children (astDeclarationObjs ?t' x))"
    then show "c < nextAstDeclaration ?t'" using wf_children[OF wf, of x c] n de by simp
  next
    fix x r' assume x: "x < nextAstDeclaration ?t'"
      and "r' \<in> set (referencedAstSymbols (astDeclarationObjs ?t' x))"
    with de(2)[of x] have "r' = r \<or> r' \<in> set (referencedAstSymbols (astDeclarationObjs t x))"
      by blast
    then show "r' < nextAstSymbol ?t'"
      using wf_referenced[OF wf, of x r'] assms[OF wf] x n by auto
  qed (use wf n in \<open>auto intro: wf_bySymbol wf_byImportKey wf_root wf_nominal wf_astDeclarations\<close>)
qed (auto simp add: notifyReferencedAstSymbol_def)

lemma fetchSpecifierAstModule_extends:
  assumes "fetchSpecifierAstModule fetchModule P decl t = Inr (r, t')"
    and "\<And>sf ms u m u'. fetchModule sf ms u = Inr (m, u') \<Longrightarrow> tableExtends u u'"
  shows "tableExtends t t'"
  using assms
  by (auto simp: fetchSpecifierAstModule_def split: option.splits if_splits sum.splits prod.splits)

lemma collectExportsFromExportStar_extends:
  assumes "collectExportsFromExportStar fetchModule P m decl t = Inr t'"
    and "\<And>sf ms u m u'. fetchModule sf ms u = Inr (m, u') \<Longrightarrow> tableExtends u u'"
  shows "tableExtends t t'"
proof (cases "nodeKind P decl = ExportDeclaration")
  case False
  with assms(1) show ?thesis by (simp add: collectExportsFromExportStar_def)
next
  case True
  with assms(1) obtain r t1 where f: "fetchSpecifierAstModule fetchModule P decl t = Inr (r, t1)"
    and t': "t' = (case r of None \<Rightarrow> t1 | Some sm \<Rightarrow> addStarExportedModule m sm t1)"
    by (auto simp: collectExportsFromExportStar_def split: sum.splits option.splits prod.splits)
  have "tableExtends t t1" using f assms(2) by (rule fetchSpecifierAstModule_extends)
  moreover have "tableExtends t1 t'"
    using t' by (cases r) (simp_all add: addStarExportedModule_extends)
  ultimately show ?thesis by (rule tableExtends_trans)
qed

lemma collectExportStars_extends:
  assumes "collectExportStars fetchModule P m decls t = Inr t'"
    and "\<And>sf ms u m u'. fetchModule sf ms u = Inr (m, u') \<Longrightarrow> tableExtends u u'"
  shows "tableExtends t t'"
  using assms
proof (induction decls arbitrary: t)
  case Nil
  then show ?case by simp
next
  case (Cons d ds)
  from Cons.prems(1) obtain t1 where
    a: "collectExportsFromExportStar fetchModule P m d t = Inr t1"
    and r: "collectExportStars fetchModule P m ds t1 = Inr t'"
    by (auto split: sum.splits)
  have "tableExtends t t1" using a Cons.prems(2) by (rule collectExportsFromExportStar_extends)
  moreover have "tableExtends t1 t'" using r Cons.prems(2) by (rule Cons.IH)
  ultimately show ?case by (rule tableExtends_trans)
qed

lemma followExportDeclarations_extends:
  assumes "followExportDeclarations fuel fetchModule P m e decls t = Inr x"
    and "\<And>sf ms u m u'. fetchModule sf ms u = Inr (m, u') \<Longrightarrow> tableExtends u u'"
  shows "tableExtends t (case x of Returned t' \<Rightarrow> t' | Fell t' \<Rightarrow> t')"
  using assms
proof (induction decls arbitrary: t)
  case Nil
  then show ?case by auto
next
  case (Cons d ds)
  show ?case
  proof (cases "findFirstParent P d ExportDeclaration")
    case None
    with Cons.prems(1) have "followExportDeclarations fuel fetchModule P m e ds t = Inr x" by simp
    then show ?thesis using Cons.prems(2) by (rule Cons.IH)
  next
    case (Some ed)
    with Cons.prems(1) obtain r t1 where
      f: "fetchSpecifierAstModule fetchModule P ed t = Inr (r, t1)"
      by (auto split: if_splits sum.splits prod.splits)
    have e1: "tableExtends t t1" using f Cons.prems(2) by (rule fetchSpecifierAstModule_extends)
    show ?thesis
    proof (cases r)
      case None
      with Cons.prems(1) Some f have "followExportDeclarations fuel fetchModule P m e ds t1 = Inr x"
        by (auto split: if_splits)
      then have "tableExtends t1 (case x of Returned t' \<Rightarrow> t' | Fell t' \<Rightarrow> t')"
        using Cons.prems(2) by (rule Cons.IH)
      with e1 show ?thesis by (rule tableExtends_trans)
    next
      case (Some sm)
      with Cons.prems(1) \<open>findFirstParent P d ExportDeclaration = Some ed\<close> f
      obtain a name where "x = Returned (setExportedSymbol m name a t1)"
        by (auto simp: Let_def split: if_splits sum.splits)
      with e1 show ?thesis
        by (auto intro: tableExtends_trans setExportedSymbol_extends)
    qed
  qed
qed

lemma collectExportForAstModule_extends:
  assumes "collectExportForAstModule loopFuel fuel fetchModule P m e current t = Inr t'"
    and "\<And>sf ms u m u'. fetchModule sf ms u = Inr (m, u') \<Longrightarrow> tableExtends u u'"
  shows "tableExtends t t'"
  using assms
proof (induction loopFuel arbitrary: current t)
  case 0
  then show ?case by simp
next
  case (Suc loopFuel)
  from Suc.prems(1) obtain x where
    f: "followExportDeclarations fuel fetchModule P m e (symbolDeclarations P current) t = Inr x"
    by (auto split: sum.splits)
  from followExportDeclarations_extends[OF f Suc.prems(2)]
  have e1: "tableExtends t (case x of Returned t' \<Rightarrow> t' | Fell t' \<Rightarrow> t')" .
  show ?case
  proof (cases x)
    case (Returned t1)
    with Suc.prems(1) f e1 show ?thesis by simp
  next
    case (Fell t1)
    with e1 have e1': "tableExtends t t1" by simp
    let ?next = "nextAlias P current"
    show ?thesis
    proof (cases ?next)
      case (Some currentAlias)
      with Suc.prems(1) f Fell
      have "collectExportForAstModule loopFuel fuel fetchModule P m e currentAlias t1 = Inr t'"
        by simp
      then have "tableExtends t1 t'" using Suc.prems(2) by (rule Suc.IH)
      with e1' show ?thesis by (rule tableExtends_trans)
    next
      case None
      with Suc.prems(1) f Fell obtain r t2 where
        g: "fetchAstSymbol fuel P current True None t1 = Inr (r, t2)"
        and t': "t' = (case r of None \<Rightarrow> t2 | Some a \<Rightarrow> setExportedSymbol m (symbolName P e) a t2)"
        by (auto split: sum.splits option.splits prod.splits)
      have "tableExtends t1 t2" using g by (rule fetch_extends)
      moreover have "tableExtends t2 t'"
        using t' by (cases r) (simp_all add: setExportedSymbol_extends)
      ultimately show ?thesis using e1' by (blast intro: tableExtends_trans)
    qed
  qed
qed

lemma collectExternalExports_extends:
  "collectExternalExports fuel P m path es t = Inr t' \<Longrightarrow> tableExtends t t'"
proof (induction es arbitrary: t)
  case Nil
  then show ?case by simp
next
  case (Cons e es)
  let ?imp = "\<lparr> exportName = symbolName P e, modulePath = path \<rparr>"
  from Cons.prems obtain a t1 where
    g: "fetchAstSymbol fuel P (followAliases P e) True (Some ?imp) t = Inr (Some a, t1)"
    and r: "collectExternalExports fuel P m path es (setExportedSymbol m (symbolName P e) a t1) = Inr t'"
    by (auto simp: Let_def split: sum.splits option.splits prod.splits)
  have "tableExtends t t1" using g by (rule fetch_extends)
  moreover have "tableExtends t1 (setExportedSymbol m (symbolName P e) a t1)"
    by (rule setExportedSymbol_extends)
  moreover have "tableExtends (setExportedSymbol m (symbolName P e) a t1) t'"
    using r by (rule Cons.IH)
  ultimately show ?case by (blast intro: tableExtends_trans)
qed

lemma collectLocalExports_extends:
  assumes "collectLocalExports fuel fetchModule P m es t = Inr t'"
    and "\<And>sf ms u m u'. fetchModule sf ms u = Inr (m, u') \<Longrightarrow> tableExtends u u'"
  shows "tableExtends t t'"
  using assms
proof (induction es arbitrary: t)
  case Nil
  then show ?case by simp
next
  case (Cons e es)
  from Cons.prems(1) obtain t1 where
    a: "(if symbolEscapedName P e = ExportStar
            then collectExportStars fetchModule P m (symbolDeclarations P e) t
            else collectExportForAstModule fuel fuel fetchModule P m e e t) = Inr t1"
    and r: "collectLocalExports fuel fetchModule P m es t1 = Inr t'"
    by (auto split: sum.splits)
  have "tableExtends t t1"
    using a Cons.prems(2)
    by (auto split: if_splits intro: collectExportStars_extends collectExportForAstModule_extends)
  moreover have "tableExtends t1 t'" using r Cons.prems(2) by (rule Cons.IH)
  ultimately show ?case by (rule tableExtends_trans)
qed

lemma newAstModule_extends:
  assumes "astModulesBySourceFile t sf = None"
  shows "tableExtends t (snd (newAstModule sf t))"
proof (rule tableExtendsI)
  show "tableWellFormed t \<Longrightarrow> tableWellFormed (snd (newAstModule sf t))"
    by (subst tableWellFormed_cong[of _ t]) (simp_all add: newAstModule_def Let_def)
qed (use assms in \<open>auto simp add: newAstModule_def Let_def\<close>)

lemma setExternalModulePath_extends:
  "tableExtends t (setExternalModulePath m p t)"
proof (rule tableExtendsI)
  show "tableWellFormed t \<Longrightarrow> tableWellFormed (setExternalModulePath m p t)"
    by (subst tableWellFormed_cong[of _ t]) (simp_all add: setExternalModulePath_def)
qed (simp_all add: setExternalModulePath_def)

lemma fetchModule_Suc_cases:
  assumes "fetchAstModuleBySourceFile (Suc fuel) P sf ms t = Inr (m, t')"
  obtains
    (Hit) "astModulesBySourceFile t sf = Some m" "t' = t"
  | (External) moduleSymbol path where "astModulesBySourceFile t sf = None"
      "m = nextAstModule t" "getSymbolForDeclaration P sf = Some moduleSymbol"
      "externalPackagePath P ms = Some path"
      "collectExternalExports fuel P m path (getExportsOfModule P moduleSymbol)
         (setExternalModulePath m path (snd (newAstModule sf t))) = Inr t'"
  | (NoExports) moduleSymbol where "astModulesBySourceFile t sf = None"
      "m = nextAstModule t" "getSymbolForDeclaration P sf = Some moduleSymbol"
      "externalPackagePath P ms = None" "symbolExports P moduleSymbol = None"
      "t' = snd (newAstModule sf t)"
  | (Local) moduleSymbol exports where "astModulesBySourceFile t sf = None"
      "m = nextAstModule t" "getSymbolForDeclaration P sf = Some moduleSymbol"
      "externalPackagePath P ms = None" "symbolExports P moduleSymbol = Some exports"
      "collectLocalExports fuel (fetchAstModuleBySourceFile fuel P) P m exports
         (snd (newAstModule sf t)) = Inr t'"
proof (cases "astModulesBySourceFile t sf")
  case (Some a)
  with assms show ?thesis by (auto intro: Hit)
next
  case None
  have m: "fst (newAstModule sf t) = nextAstModule t" by (simp add: newAstModule_def Let_def)
  from assms None m show ?thesis
    by (auto simp: split_beta split: option.splits sum.splits
        intro: External NoExports Local)
qed

lemma fetchAstModuleBySourceFile_extends:
  "fetchAstModuleBySourceFile fuel P sf ms t = Inr (m, t') \<Longrightarrow> tableExtends t t'"
proof (induction fuel arbitrary: sf ms t m t')
  case 0
  then show ?case by simp
next
  case (Suc fuel)
  have IH: "\<And>sf ms u m u'. fetchAstModuleBySourceFile fuel P sf ms u = Inr (m, u') \<Longrightarrow> tableExtends u u'"
    by (rule Suc.IH)
  from Suc.prems show ?case
  proof (cases rule: fetchModule_Suc_cases)
    case Hit
    then show ?thesis by simp
  next
    case (External moduleSymbol path)
    have "tableExtends t (snd (newAstModule sf t))"
      using External(1) by (rule newAstModule_extends)
    moreover have "tableExtends (snd (newAstModule sf t))
        (setExternalModulePath m path (snd (newAstModule sf t)))"
      by (rule setExternalModulePath_extends)
    moreover have "tableExtends (setExternalModulePath m path (snd (newAstModule sf t))) t'"
      using External(5) by (rule collectExternalExports_extends)
    ultimately show ?thesis by (blast intro: tableExtends_trans)
  next
    case (NoExports moduleSymbol)
    then show ?thesis by (simp add: newAstModule_extends)
  next
    case (Local moduleSymbol exports)
    have "tableExtends t (snd (newAstModule sf t))"
      using Local(1) by (rule newAstModule_extends)
    moreover have "tableExtends (snd (newAstModule sf t)) t'"
      using Local(6) IH by (rule collectLocalExports_extends)
    ultimately show ?thesis by (rule tableExtends_trans)
  qed
qed

lemma fetchAstSymbolForNode_extends:
  "fetchAstSymbolForNode fuel P n t = Inr (r, t') \<Longrightarrow> tableExtends t t'"
  by (auto simp: fetchAstSymbolForNode_def split: if_splits option.splits intro: fetch_extends)

lemma fetchAstDeclaration_extends:
  "fetchAstDeclaration fuel P n t = Inr (r, t') \<Longrightarrow> tableExtends t t'"
  by (auto simp: fetchAstDeclaration_def split: sum.splits option.splits prod.splits
        intro: fetchAstSymbolForNode_extends)

lemma recordReference_extends:
  assumes "recordReference fuel P n g t = Inr t'"
  shows "tableExtends t t'"
proof (cases "nodeKind P n = TypeReference \<or> nodeKind P n = ExpressionWithTypeArguments
         \<or> nodeKind P n = ComputedPropertyName")
  case False
  with assms show ?thesis by (simp add: recordReference_def)
next
  case True
  show ?thesis
  proof (cases "findFirstChildNode P n Identifier")
    case None
    with assms True show ?thesis by (simp add: recordReference_def)
  next
    case (Some symbolNode)
    with assms True obtain s r t1 where
      f: "fetchAstSymbol fuel P s True None t = Inr (r, t1)"
      and t': "t' = (case r of None \<Rightarrow> t1 | Some a \<Rightarrow> notifyReferencedAstSymbol g a t1)"
      by (auto simp: recordReference_def split: option.splits sum.splits prod.splits)
    have "tableExtends t t1" using f by (rule fetch_extends)
    moreover have "tableExtends t1 t'"
    proof (cases r)
      case None
      with t' show ?thesis by simp
    next
      case (Some a)
      with f have "astSymbolsBySymbol t1 s = Some a" by (auto intro: fetch_bound)
      then have "tableWellFormed t1 \<Longrightarrow> a < nextAstSymbol t1" by (auto intro: wf_bySymbol)
      with t' Some show ?thesis by (simp add: notifyReferencedAstSymbol_extends)
    qed
    ultimately show ?thesis by (rule tableExtends_trans)
  qed
qed

lemma analyzeChildTree_extends:
  "analyzeChildTree fuel P n g t = Inr t' \<Longrightarrow> tableExtends t t'"
proof (induction fuel arbitrary: n g t t')
  case 0
  then show ?case by simp
next
  case (Suc fuel)
  show ?case
  proof (cases "nodeKind P n = JSDocComment")
    case True
    with Suc.prems show ?thesis by simp
  next
    case False
    with Suc.prems obtain t1 d t2 where
      r: "recordReference fuel P n g t = Inr t1"
      and f: "fetchAstDeclaration fuel P n t1 = Inr (d, t2)"
      and l: "forEach (\<lambda>childNode. analyzeChildTree fuel P childNode
                         (case d of Some d' \<Rightarrow> d' | None \<Rightarrow> g)) (nodeChildren P n) t2 = Inr t'"
      by (auto split: sum.splits prod.splits)
    have "tableExtends t t1" using r by (rule recordReference_extends)
    moreover have "tableExtends t1 t2" using f by (rule fetchAstDeclaration_extends)
    moreover have "tableExtends t2 t'" using l by (rule forEach_extends) (rule Suc.IH)
    ultimately show ?thesis by (blast intro: tableExtends_trans)
  qed
qed

lemma declarationForEachRecursive_extends:
  assumes "\<And>d u u'. action d u = Inr u' \<Longrightarrow> tableExtends u u'"
  shows "declarationForEachRecursive fuel action d t = Inr t' \<Longrightarrow> tableExtends t t'"
proof (induction fuel arbitrary: d t t')
  case 0
  then show ?case by simp
next
  case (Suc fuel)
  from Suc.prems obtain t1 where a: "action d t = Inr t1"
    and l: "forEach (declarationForEachRecursive fuel action) (children (astDeclarationObjs t1 d)) t1 = Inr t'"
    by (auto split: sum.splits)
  have "tableExtends t t1" using a by (rule assms)
  moreover have "tableExtends t1 t'" using l by (rule forEach_extends) (rule Suc.IH)
  ultimately show ?case by (rule tableExtends_trans)
qed

lemma forEachDeclarationRecursive_extends:
  assumes "forEachDeclarationRecursive fuel action a t = Inr t'"
    and "\<And>d u u'. action d u = Inr u' \<Longrightarrow> tableExtends u u'"
  shows "tableExtends t t'"
  using assms(1) unfolding forEachDeclarationRecursive_def
  by (rule forEach_extends) (rule declarationForEachRecursive_extends[OF assms(2)])

lemma walkDeclarations_extends:
  "walkDeclarations fuel P a t = Inr t' \<Longrightarrow> tableExtends t t'"
  unfolding walkDeclarations_def
  by (erule forEach_extends) (rule analyzeChildTree_extends)

lemma analyzeReferences_extends:
  assumes "analyzeReferences analyzeFn d t = Inr t'"
    and "\<And>r u u'. analyzeFn r u = Inr u' \<Longrightarrow> tableExtends u u'"
  shows "tableExtends t t'"
  using assms(1) unfolding analyzeReferences_def
  by (rule forEach_extends) (auto split: if_splits intro: assms(2))

lemma analyze_Suc_cases:
  assumes "analyze (Suc fuel) P a t = Inr t'"
  obtains
    (Already) "analyzed t a" "t' = t"
  | (Nominal) "\<not> analyzed t a" "nominal (astSymbols t a)" "t' = notifyAnalyzed a t"
  | (Imported) t1 where "\<not> analyzed t a" "\<not> nominal (astSymbols t a)"
      "walkDeclarations fuel P (rootAstSymbol (astSymbols t a)) t = Inr t1"
      "astImport (astSymbols (notifyAnalyzed (rootAstSymbol (astSymbols t a)) t1) a) \<noteq> None"
      "t' = notifyAnalyzed (rootAstSymbol (astSymbols t a)) t1"
  | (Local) t1 where "\<not> analyzed t a" "\<not> nominal (astSymbols t a)"
      "walkDeclarations fuel P (rootAstSymbol (astSymbols t a)) t = Inr t1"
      "astImport (astSymbols (notifyAnalyzed (rootAstSymbol (astSymbols t a)) t1) a) = None"
      "forEachDeclarationRecursive fuel (analyzeReferences (analyze fuel P))
         (rootAstSymbol (astSymbols t a)) (notifyAnalyzed (rootAstSymbol (astSymbols t a)) t1)
         = Inr t'"
proof (cases "analyzed t a")
  case True
  with assms show ?thesis by (simp add: Already)
next
  case False
  note na = this
  show ?thesis
  proof (cases "nominal (astSymbols t a)")
    case True
    with assms na show ?thesis by (simp add: Nominal)
  next
    case False
    note nn = this
    let ?root = "rootAstSymbol (astSymbols t a)"
    show ?thesis
    proof (cases "walkDeclarations fuel P ?root t")
      case (Inl e)
      with assms na nn show ?thesis by (simp add: Let_def)
    next
      case (Inr t1)
      show ?thesis
      proof (cases "astImport (astSymbols (notifyAnalyzed ?root t1) a) = None")
        case True
        with assms na nn Inr
        have "forEachDeclarationRecursive fuel (analyzeReferences (analyze fuel P))
                ?root (notifyAnalyzed ?root t1) = Inr t'"
          by (simp add: Let_def)
        with na nn Inr True show ?thesis by (rule Local)
      next
        case False
        with assms na nn Inr have "t' = notifyAnalyzed ?root t1"
          by (simp add: Let_def)
        with na nn Inr False show ?thesis by (rule Imported)
      qed
    qed
  qed
qed

lemma analyze_extends:
  "analyze fuel P a t = Inr t' \<Longrightarrow> tableExtends t t'"
proof (induction fuel arbitrary: a t t')
  case 0
  then show ?case by simp
next
  case (Suc fuel)
  let ?root = "rootAstSymbol (astSymbols t a)"
  from Suc.prems show ?case
  proof (cases rule: analyze_Suc_cases)
    case Already
    then show ?thesis by simp
  next
    case Nominal
    then show ?thesis by (simp add: notifyAnalyzed_extends)
  next
    case (Imported t1)
    have "tableExtends t t1" using Imported(3) by (rule walkDeclarations_extends)
    moreover have "tableExtends t1 t'" using Imported(5) by (simp add: notifyAnalyzed_extends)
    ultimately show ?thesis by (rule tableExtends_trans)
  next
    case (Local t1)
    have "tableExtends t t1" using Local(3) by (rule walkDeclarations_extends)
    moreover have "tableExtends t1 (notifyAnalyzed ?root t1)" by (rule notifyAnalyzed_extends)
    moreover have "tableExtends (notifyAnalyzed ?root t1) t'"
      using Local(5)
    proof (rule forEachDeclarationRecursive_extends)
      fix d u u' assume "analyzeReferences (analyze fuel P) d u = Inr u'"
      then show "tableExtends u u'" by (rule analyzeReferences_extends) (rule Suc.IH)
    qed
    ultimately show ?thesis by (blast intro: tableExtends_trans)
  qed
qed

section \<open>Runs of the table\<close>

lemma run_extends: "run P t t' \<Longrightarrow> tableExtends t t'"
proof (induction rule: run.induct)
  case (run_start t)
  show ?case by simp
next
  case (run_fetchAstSymbol t t1 fuel s addIfMissing imp r t2)
  then show ?case by (blast intro: tableExtends_trans fetch_extends)
next
  case (run_fetchAstModule t t1 fuel sf spec m t2)
  then show ?case by (blast intro: tableExtends_trans fetchAstModuleBySourceFile_extends)
next
  case (run_analyze t t1 fuel a t2)
  then show ?case by (blast intro: tableExtends_trans analyze_extends)
qed

lemma run_trans: "run P t1 t2 \<Longrightarrow> run P t t1 \<Longrightarrow> run P t t2"
  by (induction rule: run.induct) (auto intro: run.intros)

lemma emptyTable_wf: "tableWellFormed emptyTable"
  by (simp add: tableWellFormed_def emptyTable_def)

lemma run_wf: "run P emptyTable t \<Longrightarrow> tableWellFormed t"
  using run_extends[of P emptyTable t] emptyTable_wf by (blast intro: tableExtends_wf)

lemma fetch_passes_filters:
  "fetchAstSymbol fuel P s add imp t = Inr (Some a, t') \<Longrightarrow>
   \<not> filteredFlags P s \<and> \<not> isAmbient P s"
  by (cases fuel) (auto split: if_splits)

text \<open>
  Claim C1. Within one run, any two resolution calls on the same terminal identity return
  the same Symbol Node: if a call of \<open>_fetchAstSymbol\<close> on identity \<open>s\<close> returned the node
  \<open>a\<close>, then after any further calls of the table's operations the identity cache still maps
  \<open>s\<close> to \<open>a\<close>, and a later call on \<open>s\<close> that returns (whatever its \<open>addIfMissing\<close> and
  Import Identity) returns \<open>a\<close> from the cache and leaves the table unchanged: no second
  node is constructed.
\<close>

theorem C1_identity_uniqueness:
  assumes "fetchAstSymbol fuel1 P s add1 imp1 t = Inr (Some a, t1)"
    and "run P t1 t2"
    and "fetchAstSymbol fuel2 P s add2 imp2 t2 = Inr (r, t3)"
  shows "r = Some a \<and> t3 = t2 \<and> astSymbolsBySymbol t2 s = Some a"
proof -
  from assms(1) have "astSymbolsBySymbol t1 s = Some a" by (rule fetch_bound)
  with run_extends[OF assms(2)] have hit: "astSymbolsBySymbol t2 s = Some a"
    by (rule tableExtends_bySymbol)
  from assms(1) have pass: "\<not> filteredFlags P s" "\<not> isAmbient P s"
    by (simp_all add: fetch_passes_filters)
  obtain n where "fuel2 = Suc n" using assms(3) by (cases fuel2) auto
  with assms(3) pass hit have "importCheck imp2 a t2 = Inr (r, t3)" by (simp add: fetch_hit)
  with hit show ?thesis by (auto dest: importCheck_result)
qed

text \<open>
  On the small program: \<open>Foo\<close> is resolved to node 0; after \<open>Bar\<close> was fetched as well, a
  lookup of \<open>Foo\<close> returns node 0 again.
\<close>

theorem C1_witness:
  "fetchAstSymbol (Suc 0) exampleProgram 1 True None emptyTable = Inr (Some 0, afterFetchFoo)
   \<and> (\<exists>t2. run exampleProgram afterFetchFoo t2 \<and> nextAstSymbol t2 = 2
          \<and> fetchAstSymbol (Suc 0) exampleProgram 1 False None t2 = Inr (Some 0, t2))"
proof -
  obtain r t2 where step: "fetchAstSymbol (Suc 0) exampleProgram 2 True (Some barFromPkg) afterFetchFoo = Inr (r, t2)"
    and n: "nextAstSymbol t2 = 2"
    by (simp add: afterFetchFoo_def example_defs Let_def)
  have r: "run exampleProgram afterFetchFoo t2"
    using run_start step by (rule run_fetchAstSymbol)
  obtain r' t3 where again: "fetchAstSymbol (Suc 0) exampleProgram 1 False None t2 = Inr (r', t3)"
    using step by (auto simp add: afterFetchFoo_def example_defs Let_def)
  from C1_identity_uniqueness[OF afterFetchFoo_run r again] again
  have "fetchAstSymbol (Suc 0) exampleProgram 1 False None t2 = Inr (Some 0, t2)" by simp
  with afterFetchFoo_run r n show ?thesis by blast
qed

text \<open>
  Claim C6, as amended. Two distinct followed identities that carry the same Import
  Identity resolve to one Symbol Node, provided the first of them was resolved on a miss of
  the identity cache: only then is its node registered under the key of the Import
  Identity (a hit of the identity cache returns the cached node and registers no key). In
  a run from a new table, the first identity \<open>s1\<close>, a miss of the identity cache, is resolved
  with Import Identity \<open>i\<close> to the node \<open>a\<close>. Later in the run a second identity \<open>s2\<close>, a miss
  of the identity cache, is resolved with the same \<open>i\<close>: the call returns \<open>a\<close>, and all it
  changes is the identity cache, which now binds \<open>s2\<close> to \<open>a\<close>; no node is constructed.
\<close>

theorem C6_import_identity_merge:
  assumes "run P emptyTable t"
    and "fetchAstSymbol fuel1 P s1 add1 (Some i) t = Inr (Some a, t1)"
    and "astSymbolsBySymbol t s1 = None"
    and "run P t1 t2"
    and "\<not> filteredFlags P s2" and "\<not> isAmbient P s2"
    and "symbolDeclarations P s2 \<noteq> []"
    and "astSymbolsBySymbol t2 s2 = None"
  shows "fetchAstSymbol (Suc fuel2) P s2 add2 (Some i) t2
           = Inr (Some a, t2\<lparr> astSymbolsBySymbol := (astSymbolsBySymbol t2)(s2 \<mapsto> a) \<rparr>)"
proof -
  from fetch_miss_registers[OF assms(2,3)]
  have k1: "astSymbolsByImportKey t1 (key i) = Some a" and i1: "imported (astSymbols t1 a)"
    by simp_all
  have "run P emptyTable t1" using assms(1,2) by (rule run_fetchAstSymbol)
  then have "tableWellFormed t1" by (rule run_wf)
  then have lt: "a < nextAstSymbol t1" using k1 by (rule wf_byImportKey)
  have e: "tableExtends t1 t2" using assms(4) by (rule run_extends)
  from e k1 have k2: "astSymbolsByImportKey t2 (key i) = Some a"
    by (rule tableExtends_byImportKey)
  from tableExtends_kept[OF e lt] i1 have i2: "imported (astSymbols t2 a)"
    by (simp add: symbolKept_def)
  show ?thesis
    using fetch_merge[OF assms(5,6,8,7) k2] i2 by (simp add: importCheck_def)
qed

text \<open>
  On the small program: symbols 2 and 3 both carry the import identity of \<open>Bar\<close> from
  \<open>pkg\<close>; the second is bound to the node of the first.
\<close>

theorem C6_witness:
  "fetchAstSymbol (Suc 0) exampleProgram 2 True (Some barFromPkg) emptyTable
     = Inr (Some 0, afterFetchBar)
   \<and> astSymbolsBySymbol emptyTable 2 = None
   \<and> astSymbolsBySymbol afterFetchBar 3 = None
   \<and> fetchAstSymbol (Suc 0) exampleProgram 3 True (Some barFromPkg) afterFetchBar
     = Inr (Some 0, afterFetchBar\<lparr> astSymbolsBySymbol := (astSymbolsBySymbol afterFetchBar)(3 \<mapsto> 0) \<rparr>)"
proof -
  have h2: "astSymbolsBySymbol emptyTable 2 = None" by (simp add: example_defs)
  have h5: "\<not> filteredFlags exampleProgram 3" "\<not> isAmbient exampleProgram 3"
    "symbolDeclarations exampleProgram 3 \<noteq> []"
    by (simp_all add: example_defs)
  from C6_import_identity_merge[OF run_start afterFetchBar_run h2 run_start h5 afterFetchBar_fields(2)]
  show ?thesis using afterFetchBar_run h2 afterFetchBar_fields(2) by simp
qed

section \<open>What module resolution resolves\<close>

lemma fetchModule_registered:
  assumes "fetchAstModuleBySourceFile fuel P sf ms t = Inr (m, t')"
  shows "astModulesBySourceFile t' sf = Some m"
proof -
  obtain n where "fuel = Suc n" using assms by (cases fuel) auto
  with assms have run: "fetchAstModuleBySourceFile (Suc n) P sf ms t = Inr (m, t')" by simp
  have new: "astModulesBySourceFile (snd (newAstModule sf t)) sf = Some (nextAstModule t)"
    by (simp add: newAstModule_def Let_def)
  from run show ?thesis
  proof (cases rule: fetchModule_Suc_cases)
    case Hit
    then show ?thesis by simp
  next
    case (External moduleSymbol path)
    have "tableExtends (setExternalModulePath m path (snd (newAstModule sf t))) t'"
      using External(5) by (rule collectExternalExports_extends)
    moreover have "astModulesBySourceFile (setExternalModulePath m path (snd (newAstModule sf t))) sf = Some m"
      using new External(2) by (simp add: setExternalModulePath_def)
    ultimately show ?thesis by (rule tableExtends_byModule)
  next
    case (NoExports moduleSymbol)
    with new show ?thesis by simp
  next
    case (Local moduleSymbol exports)
    have "tableExtends (snd (newAstModule sf t)) t'"
      using Local(6) by (rule collectLocalExports_extends) (rule fetchAstModuleBySourceFile_extends)
    then show ?thesis using new Local(2) by (auto intro: tableExtends_byModule)
  qed
qed

lemma wildcardTargetResolved_extends:
  assumes "wildcardTargetResolved P t m decl" and "tableExtends t t'" and "m < nextAstModule t"
  shows "wildcardTargetResolved P t' m decl"
  using assms(1) tableExtends_byModule[OF assms(2)] tableExtends_stars[OF assms(2,3)]
  unfolding wildcardTargetResolved_def
  by (auto split: option.splits)

lemma collectExportsFromExportStar_resolves:
  assumes "collectExportsFromExportStar (fetchAstModuleBySourceFile fuel P) P m decl t = Inr t'"
    and "nodeKind P decl = ExportDeclaration"
    and "getModuleSpecifier P decl = Some spec" and "spec \<noteq> []"
  shows "wildcardTargetResolved P t' m decl"
proof -
  from assms obtain fname target m' t1 where
    r: "getResolvedModule P (nodeSourceFile P decl) spec = Some fname"
    "getSourceFile P fname = Some target"
    and f: "fetchAstModuleBySourceFile fuel P target (Some spec) t = Inr (m', t1)"
    and t': "t' = addStarExportedModule m m' t1"
    by (auto simp: collectExportsFromExportStar_def fetchSpecifierAstModule_def
          split: option.splits sum.splits prod.splits if_splits)
  from f have "astModulesBySourceFile t1 target = Some m'" by (rule fetchModule_registered)
  with r t' assms(3) show ?thesis
    by (simp add: wildcardTargetResolved_def addStarExportedModule_def)
qed

lemma collectExportStars_resolves:
  assumes "collectExportStars (fetchAstModuleBySourceFile fuel P) P m decls t = Inr t'"
    and "m < nextAstModule t" and "decl \<in> set decls"
    and "nodeKind P decl = ExportDeclaration"
    and "getModuleSpecifier P decl = Some spec" and "spec \<noteq> []"
  shows "wildcardTargetResolved P t' m decl"
  using assms(1,2,3)
proof (induction decls arbitrary: t)
  case Nil
  then show ?case by simp
next
  case (Cons d ds)
  from Cons.prems(1) obtain t1 where
    a: "collectExportsFromExportStar (fetchAstModuleBySourceFile fuel P) P m d t = Inr t1"
    and r: "collectExportStars (fetchAstModuleBySourceFile fuel P) P m ds t1 = Inr t'"
    by (auto split: sum.splits)
  have e1: "tableExtends t t1"
    using a by (rule collectExportsFromExportStar_extends) (rule fetchAstModuleBySourceFile_extends)
  have e2: "tableExtends t1 t'"
    using r by (rule collectExportStars_extends) (rule fetchAstModuleBySourceFile_extends)
  have m1: "m < nextAstModule t1" using Cons.prems(2) tableExtends_nextModule[OF e1] by simp
  show ?case
  proof (cases "decl = d")
    case True
    with a assms(4,5,6) have "wildcardTargetResolved P t1 m decl"
      by (auto intro: collectExportsFromExportStar_resolves)
    then show ?thesis using e2 m1 by (rule wildcardTargetResolved_extends)
  next
    case False
    with Cons.prems(3) have "decl \<in> set ds" by simp
    with r m1 show ?thesis by (rule Cons.IH)
  qed
qed

lemma followExportDeclarations_plain:
  "list_all (\<lambda>d. findFirstParent P d ExportDeclaration = None) decls \<Longrightarrow>
   followExportDeclarations fuel fetchModule P m e decls t = Inr (Fell t)"
  by (induction decls) simp_all

lemma fetch_passing_result:
  assumes "fetchAstSymbol fuel P s add imp t = Inr (r, t')"
    and "\<not> filteredFlags P s" and "\<not> isAmbient P s"
  shows "r \<noteq> None"
proof -
  obtain n where "fuel = Suc n" using assms(1) by (cases fuel) auto
  with assms(1) have "fetchAstSymbol (Suc n) P s add imp t = Inr (r, t')" by simp
  then show ?thesis using assms(2,3)
    by (cases rule: fetch_Suc_cases) (auto dest!: importCheck_result constructAstSymbol_result)
qed

text \<open>
  Against claim C3 as stated: resolving \<^verbatim>\<open>a.ts\<close> in a new table, where no module was
  resolved before, returns with \<^verbatim>\<open>b.ts\<close>, the target of its wildcard re-export, resolved
  into Module Registry Entry 1, which already holds the export \<open>X\<close> of \<^verbatim>\<open>b.ts\<close>.
\<close>

theorem C3_counterexample:
  "fetchAstModuleBySourceFile 6 exampleProgram 100 None emptyTable = Inr (0, afterFetchModuleA)
   \<and> astModulesBySourceFile emptyTable 101 = None
   \<and> nextAstModule emptyTable = 0
   \<and> astModulesBySourceFile afterFetchModuleA 101 = Some (Suc 0)
   \<and> nextAstModule afterFetchModuleA = 2
   \<and> starExportedModules (astModules afterFetchModuleA 0) = [Suc 0]
   \<and> exportedSymbols (astModules afterFetchModuleA (Suc 0)) ''X'' = Some 0"
  using afterFetchModuleA_run afterFetchModuleA_modules afterFetchModuleA_exports
  by (simp add: emptyTable_def)

text \<open>
  Claim C5. For a re-export \<^verbatim>\<open>export { X as Y } from './m'\<close> (the first declaration of the
  exported symbol is an export specifier with property name \<open>X\<close>, inside an export
  declaration with a module specifier), a returning call of \<open>_collectExportForAstModule\<close>
  has resolved the specifier's target module, has looked up the original name \<open>X\<close> (not
  the alias) in the export surface of that module, has found a Symbol Node there, and has
  bound the exported name of the current symbol to that very node.
\<close>

theorem C5_reexport_resolves_original_name:
  assumes "symbolDeclarations P exportedSymbol = decl # rest"
    and "findFirstParent P decl ExportDeclaration = Some exportDeclaration"
    and "nodeKind P decl = ExportSpecifier"
    and "propertyNameText P decl = Some original"
    and "getModuleSpecifier P exportDeclaration = Some spec" and "spec \<noteq> []"
    and "collectExportForAstModule (Suc loopFuel) fuel fetchModule P astModule
           exportedSymbol exportedSymbol t = Inr t'"
  shows "\<exists>target t1 a visited.
           fetchSpecifierAstModule fetchModule P exportDeclaration t = Inr (Some target, t1)
           \<and> tryGetExportOfAstModule fuel t1 original target {} = Inr (Some a, visited)
           \<and> t' = setExportedSymbol astModule (symbolName P exportedSymbol) a t1
           \<and> exportedSymbols (astModules t' astModule) (symbolName P exportedSymbol) = Some a"
proof -
  from assms(5,6) have spec: "\<And>r u. fetchSpecifierAstModule fetchModule P exportDeclaration t = Inr (r, u)
      \<Longrightarrow> r \<noteq> None"
    by (auto simp: fetchSpecifierAstModule_def split: option.splits sum.splits prod.splits)
  from assms(1,2,3,4,7) obtain x where
    f: "followExportDeclarations fuel fetchModule P astModule exportedSymbol (decl # rest) t = Inr x"
    by (auto split: sum.splits)
  from f assms(2,3) obtain r t1 where
    g: "fetchSpecifierAstModule fetchModule P exportDeclaration t = Inr (r, t1)"
    by (auto split: sum.splits prod.splits)
  with spec obtain target where r: "r = Some target" by auto
  from f assms(2,3,4) g r obtain a where
    l: "getExportOfAstModule fuel t1 original target = Inr a"
    and x: "x = Returned (setExportedSymbol astModule (symbolName P exportedSymbol) a t1)"
    by (auto split: sum.splits)
  from l obtain visited where
    "tryGetExportOfAstModule fuel t1 original target {} = Inr (Some a, visited)"
    by (auto simp: getExportOfAstModule_def split: sum.splits option.splits prod.splits)
  moreover from assms(1,7) f x
  have "t' = setExportedSymbol astModule (symbolName P exportedSymbol) a t1" by simp
  ultimately show ?thesis using g r by (auto simp: setExportedSymbol_def)
qed

text \<open>
  On the small program: \<^verbatim>\<open>a.ts\<close> has \<^verbatim>\<open>export { X as Y } from './b'\<close>. Resolving that export
  binds \<open>Y\<close> in \<^verbatim>\<open>a.ts\<close> to node 0, the node that \<open>X\<close> resolves to in \<^verbatim>\<open>b.ts\<close>.
\<close>

theorem C5_witness:
  "symbolDeclarations exampleProgram 52 = [130]
   \<and> propertyNameText exampleProgram 130 = Some ''X'' \<and> nameText exampleProgram 130 = ''Y''
   \<and> exportedSymbols (astModules afterFetchModuleA (Suc 0)) ''X'' = Some 0
   \<and> (\<exists>t'. collectExportForAstModule (Suc 0) 3 (fetchAstModuleBySourceFile 3 exampleProgram)
               exampleProgram 0 52 52 afterFetchModuleA = Inr t'
          \<and> exportedSymbols (astModules t' 0) ''Y'' = Some 0)"
proof -
  have h: "symbolDeclarations exampleProgram 52 = [130]"
    "findFirstParent exampleProgram 130 ExportDeclaration = Some 131"
    "nodeKind exampleProgram 130 = ExportSpecifier"
    "propertyNameText exampleProgram 130 = Some ''X''"
    "getModuleSpecifier exampleProgram 131 = Some ''./b''" "''./b'' \<noteq> []"
    by (simp_all add: exampleProgram_def)
  have n: "nameText exampleProgram 130 = ''Y''" "symbolName exampleProgram 52 = ''Y''"
    by (simp_all add: exampleProgram_def)
  have s: "fetchSpecifierAstModule (fetchAstModuleBySourceFile 3 exampleProgram) exampleProgram 131
             afterFetchModuleA = Inr (Some (Suc 0), afterFetchModuleA)"
    by (simp add: fetchSpecifierAstModule_def exampleProgram_def numeral_3_eq_3
          afterFetchModuleA_modules)
  have l: "getExportOfAstModule 3 afterFetchModuleA ''X'' (Suc 0) = Inr 0"
    by (simp add: getExportOfAstModule_def numeral_3_eq_3 afterFetchModuleA_exports)
  obtain t' where run: "collectExportForAstModule (Suc 0) 3 (fetchAstModuleBySourceFile 3 exampleProgram)
               exampleProgram 0 52 52 afterFetchModuleA = Inr t'"
    using h s l by simp
  from C5_reexport_resolves_original_name[OF h run] s l n
  have "exportedSymbols (astModules t' 0) ''Y'' = Some 0"
    by (auto simp: getExportOfAstModule_def split: sum.splits option.splits prod.splits)
  with h n run afterFetchModuleA_exports show ?thesis by auto
qed

text \<open>
  Claim C10. In a local module, an exported name whose terminal identity yields no Symbol
  Node is silently omitted: when the alias chain has ended at an identity that is filtered
  out (by its flags, or as ambient) and is not declared in an export declaration,
  \<open>_collectExportForAstModule\<close> returns without error and leaves the table, and so the
  \<open>exportedSymbols\<close> of the module, as it was. For the entry point of an external package
  the same identity raises \<open>Unsupported export\<close>.
\<close>

theorem C10_filtered_export_omitted_locally:
  "(list_all (\<lambda>d. findFirstParent P d ExportDeclaration = None) (symbolDeclarations P current)
      \<and> nextAlias P current = None
      \<and> (filteredFlags P current \<or> isAmbient P current) \<longrightarrow>
      collectExportForAstModule (Suc loopFuel) (Suc fuel) fetchModule P astModule
        exportedSymbol current t = Inr t)
   \<and> (filteredFlags P (followAliases P exportedSymbol)
        \<or> isAmbient P (followAliases P exportedSymbol) \<longrightarrow>
      collectExternalExports (Suc fuel) P astModule path (exportedSymbol # rest) t
        = Inl (UnsupportedExport (symbolName P exportedSymbol)))"
proof (intro conjI impI)
  assume h: "list_all (\<lambda>d. findFirstParent P d ExportDeclaration = None) (symbolDeclarations P current)
      \<and> nextAlias P current = None
      \<and> (filteredFlags P current \<or> isAmbient P current)"
  then have "followExportDeclarations (Suc fuel) fetchModule P astModule exportedSymbol
               (symbolDeclarations P current) t = Inr (Fell t)"
    by (simp add: followExportDeclarations_plain)
  moreover from h have "fetchAstSymbol (Suc fuel) P current True None t = Inr (None, t)"
    by auto
  ultimately show "collectExportForAstModule (Suc loopFuel) (Suc fuel) fetchModule P astModule
        exportedSymbol current t = Inr t"
    using h by simp
next
  assume "filteredFlags P (followAliases P exportedSymbol)
        \<or> isAmbient P (followAliases P exportedSymbol)"
  then have "fetchAstSymbol (Suc fuel) P (followAliases P exportedSymbol) True
               (Some \<lparr> exportName = symbolName P exportedSymbol, modulePath = path \<rparr>) t
             = Inr (None, t)"
    by auto
  then show "collectExternalExports (Suc fuel) P astModule path (exportedSymbol # rest) t
        = Inl (UnsupportedExport (symbolName P exportedSymbol))"
    by (simp add: Let_def)
qed

text \<open>
  On the small program: the ambient export \<open>Amb\<close> is omitted from the local module
  \<^verbatim>\<open>a.ts\<close> without error, and is an unsupported export of the external package \<open>pkg2\<close>.
\<close>

theorem C10_witness:
  "isAmbient exampleProgram 5
   \<and> collectExportForAstModule (Suc 0) (Suc 0) (fetchAstModuleBySourceFile 0 exampleProgram)
        exampleProgram 0 5 5 emptyTable = Inr emptyTable
   \<and> exportedSymbols (astModules afterFetchModuleA 0) ''Amb'' = None
   \<and> fetchAstModuleBySourceFile 2 exampleProgram 201 (Some ''pkg2'') emptyTable
        = Inl (UnsupportedExport ''Amb'')"
proof -
  have a: "isAmbient exampleProgram 5" "followAliases exampleProgram 5 = 5"
    "symbolName exampleProgram 5 = ''Amb''"
    by (simp_all add: exampleProgram_def)
  have p: "list_all (\<lambda>d. findFirstParent exampleProgram d ExportDeclaration = None)
             (symbolDeclarations exampleProgram 5)"
    "nextAlias exampleProgram 5 = None"
    by (simp_all add: example_defs module_defs)
  note inst = C10_filtered_export_omitted_locally[of exampleProgram 5 0 0 _ 0 5 _ _ "[]"]
  have "collectExportForAstModule (Suc 0) (Suc 0) (fetchAstModuleBySourceFile 0 exampleProgram)
        exampleProgram 0 5 5 emptyTable = Inr emptyTable"
    using inst[of "fetchAstModuleBySourceFile 0 exampleProgram" emptyTable] a p by simp
  moreover have "collectExternalExports (Suc 0) exampleProgram 0 ''pkg2'' [5] t
        = Inl (UnsupportedExport ''Amb'')" for t
    using inst[of _ t "''pkg2''"] a by simp
  then have "fetchAstModuleBySourceFile 2 exampleProgram 201 (Some ''pkg2'') emptyTable
        = Inl (UnsupportedExport ''Amb'')"
    by (simp add: numeral_2_eq_2 exampleProgram_def emptyTable_def externalPackagePath_def
          newAstModule_def Let_def)
  ultimately show ?thesis using a afterFetchModuleA_exports by simp
qed

section \<open>Properties of the analysis\<close>

lemma analyzed_extends:
  assumes "tableExtends t t'" and "tableWellFormed t" and "a < nextAstSymbol t"
    and "analyzed t a"
  shows "analyzed t' a"
proof -
  let ?root = "rootAstSymbol (astSymbols t a)"
  have r: "?root < nextAstSymbol t" using assms(2,3) by (rule wf_root)
  from tableExtends_kept[OF assms(1,3)] have "rootAstSymbol (astSymbols t' a) = ?root"
    by (simp add: symbolKept_def)
  moreover from tableExtends_kept[OF assms(1) r] assms(4)
  have "analyzedFlag (astSymbols t' ?root)" by (simp add: symbolKept_def analyzed_def)
  ultimately show ?thesis by (simp add: analyzed_def)
qed

lemma notifyAnalyzed_root:
  assumes "tableExtends t t1" and "a < nextAstSymbol t"
  shows "analyzed (notifyAnalyzed (rootAstSymbol (astSymbols t a)) t1) a"
proof -
  from tableExtends_kept[OF assms] have "rootAstSymbol (astSymbols t1 a) = rootAstSymbol (astSymbols t a)"
    by (simp add: symbolKept_def)
  then show ?thesis by (simp add: analyzed_def notifyAnalyzed_def)
qed

lemma analyze_post:
  assumes "analyze fuel P a t = Inr t'" and "tableWellFormed t" and "a < nextAstSymbol t"
  shows "analyzed t' a"
proof -
  obtain n where "fuel = Suc n" using assms(1) by (cases fuel) auto
  with assms(1) have run: "analyze (Suc n) P a t = Inr t'" by simp
  let ?root = "rootAstSymbol (astSymbols t a)"
  from run show ?thesis
  proof (cases rule: analyze_Suc_cases)
    case Already
    then show ?thesis by simp
  next
    case Nominal
    with wf_nominal[OF assms(2,3)] show ?thesis by (simp add: analyzed_def notifyAnalyzed_def)
  next
    case (Imported t1)
    have "tableExtends t t1" using Imported(3) by (rule walkDeclarations_extends)
    with Imported(5) assms(3) show ?thesis by (simp add: notifyAnalyzed_root)
  next
    case (Local t1)
    have e1: "tableExtends t t1" using Local(3) by (rule walkDeclarations_extends)
    let ?t2 = "notifyAnalyzed ?root t1"
    have e2: "tableExtends t1 ?t2" by (rule notifyAnalyzed_extends)
    have e: "tableExtends t ?t2" using e1 e2 by (rule tableExtends_trans)
    have "tableExtends ?t2 t'"
      using Local(5)
    proof (rule forEachDeclarationRecursive_extends)
      fix d u u' assume "analyzeReferences (analyze n P) d u = Inr u'"
      then show "tableExtends u u'" by (rule analyzeReferences_extends) (rule analyze_extends)
    qed
    moreover have "tableWellFormed ?t2" using e assms(2) by (rule tableExtends_wf)
    moreover have "a < nextAstSymbol ?t2" using tableExtends_next[OF e] assms(3) by simp
    moreover have "analyzed ?t2 a" using e1 assms(3) by (rule notifyAnalyzed_root)
    ultimately show ?thesis by (rule analyzed_extends)
  qed
qed

text \<open>
  Claim C7. \<open>analyze\<close> is idempotent per Symbol Node. In a run from a new table, when
  \<open>analyze\<close> has returned for a constructed Symbol Node, the node is analyzed, and a second
  call on the same node is a no-op: the analyzed flag short-circuits it and the table is
  returned as it is, so no Declaration Node and no referenced-symbol entry is added.
\<close>

theorem C7_analyze_idempotent:
  assumes "run P emptyTable t" and "a < nextAstSymbol t"
    and "analyze fuel P a t = Inr t1"
  shows "analyzed t1 a \<and> analyze (Suc fuel2) P a t1 = Inr t1"
proof -
  have "tableWellFormed t" using assms(1) by (rule run_wf)
  with assms(3) have "analyzed t1 a" using assms(2) by (rule analyze_post)
  then show ?thesis by simp
qed

text \<open>More definitions to unfold when the analysis is run on the small program.\<close>

lemmas analysis_defs =
  analyzed_def notifyAnalyzed_def notifyReferencedAstSymbol_def fetchAstSymbolForNode_def
  fetchAstDeclaration_def recordReference_def walkDeclarations_def analyzeReferences_def
  forEachDeclarationRecursive_def

lemma afterFetchModuleA_reached: "run exampleProgram emptyTable afterFetchModuleA"
  using run_start afterFetchModuleA_run by (rule run_fetchAstModule)

lemma afterAnalyzeFoo_run:
  "analyze 6 exampleProgram 1 afterFetchModuleA = Inr afterAnalyzeFoo"
  by (simp add: afterAnalyzeFoo_def afterFetchModuleA_def eval_nat_numeral example_defs
        module_defs analysis_defs Let_def)

lemma afterAnalyzeFoo_fields:
  "nextAstSymbol afterFetchModuleA = 2" "nextAstDeclaration afterFetchModuleA = 2"
  "nextAstSymbol afterAnalyzeFoo = 4" "nextAstDeclaration afterAnalyzeFoo = 4"
  by (simp_all add: afterAnalyzeFoo_def afterFetchModuleA_def eval_nat_numeral example_defs
        module_defs analysis_defs Let_def)

text \<open>
  On the small program: analyzing \<open>Foo\<close> constructs two more Symbol Nodes and Declaration
  Nodes; analyzing it again changes nothing.
\<close>

theorem C7_witness:
  "run exampleProgram emptyTable afterFetchModuleA \<and> 1 < nextAstSymbol afterFetchModuleA
   \<and> analyze 6 exampleProgram 1 afterFetchModuleA = Inr afterAnalyzeFoo
   \<and> nextAstSymbol afterAnalyzeFoo = 4 \<and> nextAstDeclaration afterAnalyzeFoo = 4
   \<and> analyzed afterAnalyzeFoo 1
   \<and> analyze (Suc 0) exampleProgram 1 afterAnalyzeFoo = Inr afterAnalyzeFoo"
proof -
  have lt: "1 < nextAstSymbol afterFetchModuleA" by (simp add: afterAnalyzeFoo_fields)
  from C7_analyze_idempotent[OF afterFetchModuleA_reached lt afterAnalyzeFoo_run, of 0]
  show ?thesis
    using afterFetchModuleA_reached lt afterAnalyzeFoo_run afterAnalyzeFoo_fields by simp
qed

section \<open>An identity resolved under two import identities\<close>

text \<open>
  Against claim C6 as stated: symbol 2 is resolved as the export \<open>Baz\<close> of \<open>pkg\<close> (node 0,
  registered under the key of \<open>Baz\<close>) and then as the export \<open>Bar\<close> of \<open>pkg\<close>: a hit of the
  identity cache, which returns node 0 and registers no key. Symbol 3, a miss of the identity
  cache, is then resolved with the same Import Identity \<open>Bar\<close> of \<open>pkg\<close>: no node is registered
  under that key, and a second node, 1, is constructed. The two identities carry the same
  Import Identity and have different Symbol Nodes.
\<close>

theorem C6_counterexample:
  "fetchAstSymbol (Suc 0) exampleProgram 2 True (Some bazFromPkg) emptyTable
     = Inr (Some 0, afterFetchBaz)
   \<and> fetchAstSymbol (Suc 0) exampleProgram 2 True (Some barFromPkg) afterFetchBaz
     = Inr (Some 0, afterFetchBaz)
   \<and> astSymbolsBySymbol afterFetchBaz 3 = None
   \<and> astSymbolsByImportKey afterFetchBaz (key barFromPkg) = None
   \<and> fetchAstSymbol (Suc 0) exampleProgram 3 True (Some barFromPkg) afterFetchBaz
     = Inr (Some (Suc 0), afterFetchBazBar)
   \<and> nextAstSymbol afterFetchBaz = Suc 0
   \<and> nextAstSymbol afterFetchBazBar = 2
   \<and> astSymbolsBySymbol afterFetchBazBar 2 = Some 0
   \<and> astSymbolsBySymbol afterFetchBazBar 3 = Some (Suc 0)"
  by (simp add: afterFetchBazBar_def afterFetchBaz_def bazFromPkg_def example_defs Let_def)

section \<open>Resolution of the exports of a module\<close>

lemma sameModules_refl [simp]: "sameModules t t"
  by (simp add: sameModules_def)

lemma sameModules_trans: "sameModules t u \<Longrightarrow> sameModules u v \<Longrightarrow> sameModules t v"
  by (simp add: sameModules_def)

lemma createAstDeclarations_sameModules:
  "createAstDeclarations P s p ds t = Inr t' \<Longrightarrow> sameModules t t'"
proof (induction ds arbitrary: t)
  case Nil
  then show ?case by simp
next
  case (Cons d ds)
  from Cons.prems obtain pd where
    r: "createAstDeclarations P s p ds
          ((snd (newAstDeclaration d s pd t))\<lparr> astDeclarationsByDeclaration :=
              (astDeclarationsByDeclaration (snd (newAstDeclaration d s pd t)))
                 (d \<mapsto> fst (newAstDeclaration d s pd t)) \<rparr>) = Inr t'"
    by (auto simp: split_beta split: sum.splits option.splits)
  have "sameModules t ((snd (newAstDeclaration d s pd t))\<lparr> astDeclarationsByDeclaration :=
              (astDeclarationsByDeclaration (snd (newAstDeclaration d s pd t)))
                 (d \<mapsto> fst (newAstDeclaration d s pd t)) \<rparr>)"
    by (simp add: sameModules_def newAstDeclaration_def Let_def)
  with Cons.IH[OF r] show ?case by (blast intro: sameModules_trans)
qed

lemma constructAstSymbol_sameModules:
  assumes "constructAstSymbol P s imp p n t = Inr (r, t')"
  shows "sameModules t t'"
proof -
  obtain a t3 where n: "newAstSymbol P s imp p n t = (a, t3)" by fastforce
  with assms(1) obtain t4 where c: "createAstDeclarations P a p (symbolDeclarations P s) t3 = Inr t4"
    and i: "importCheck imp a t4 = Inr (r, t')"
    by (auto simp: constructAstSymbol_def split: sum.splits)
  from n have "sameModules t t3"
    by (auto simp: sameModules_def newAstSymbol_def Let_def split: option.splits)
  moreover have "sameModules t3 t4" using c by (rule createAstDeclarations_sameModules)
  moreover have "t' = t4" using i by (simp add: importCheck_result)
  ultimately show ?thesis by (blast intro: sameModules_trans)
qed

lemma fetch_sameModules:
  "fetchAstSymbol fuel P s add imp t = Inr (r, t') \<Longrightarrow> sameModules t t'"
proof (induction fuel arbitrary: s imp t r t')
  case 0
  then show ?case by simp
next
  case (Suc fuel)
  from Suc.prems show ?case
  proof (cases rule: fetch_Suc_cases)
    case Filtered
    then show ?thesis by simp
  next
    case (Hit a)
    then show ?thesis by (auto dest!: importCheck_result)
  next
    case (Merge i a)
    then show ?thesis by (auto dest!: importCheck_result simp: sameModules_def)
  next
    case (NewRoot n)
    then show ?thesis by (auto intro: constructAstSymbol_sameModules)
  next
    case (NewChild ps p t1)
    from NewChild(6) have "sameModules t t1" by (rule Suc.IH)
    moreover from NewChild(7) have "sameModules t1 t'" by (rule constructAstSymbol_sameModules)
    ultimately show ?thesis by (rule sameModules_trans)
  qed
qed

lemma fetchSpecifier_cases:
  assumes "fetchSpecifierAstModule fetchModule P decl t = Inr (r, t')"
  obtains
    (NoSpecifier) "r = None" "t' = t"
      "getModuleSpecifier P decl = None \<or> getModuleSpecifier P decl = Some []"
  | (Resolved) spec fname target sm where "r = Some sm" "getModuleSpecifier P decl = Some spec"
      "spec \<noteq> []" "getResolvedModule P (nodeSourceFile P decl) spec = Some fname"
      "getSourceFile P fname = Some target" "fetchModule target (Some spec) t = Inr (sm, t')"
  using assms
  by (auto simp: fetchSpecifierAstModule_def split: option.splits if_splits sum.splits prod.splits)

lemma followExportDeclarations_shape:
  assumes "followExportDeclarations fuel fetchModule P m e decls t = Inr x"
    and fm: "\<And>sf ms u sm u'. fetchModule sf ms u = Inr (sm, u') \<Longrightarrow>
               R u u' \<and> astModulesBySourceFile u' sf = Some sm"
    and refl: "\<And>u. R u u"
    and trans: "\<And>u v w. R u v \<Longrightarrow> R v w \<Longrightarrow> R u w"
  shows "(case x of
            Fell u \<Rightarrow> R t u \<and> reexportOf P decls = None
          | Returned t' \<Rightarrow>
              (\<exists>u decl ed sm a. R t u \<and> reexportOf P decls = Some (decl, ed)
                 \<and> specifierTarget P u ed = Some sm
                 \<and> getExportOfAstModule fuel u (exportNameOf P decl) sm = Inr a
                 \<and> t' = setExportedSymbol m (symbolName P e) a u))"
  using assms(1)
proof (induction decls arbitrary: t)
  case Nil
  then show ?case by (auto simp: refl)
next
  case (Cons d ds)
  show ?case
  proof (cases "findFirstParent P d ExportDeclaration")
    case None
    with Cons.prems have "followExportDeclarations fuel fetchModule P m e ds t = Inr x" by simp
    from Cons.IH[OF this] None show ?thesis by (cases x) simp_all
  next
    case (Some ed)
    with Cons.prems obtain r t1 where
      f: "fetchSpecifierAstModule fetchModule P ed t = Inr (r, t1)"
      by (auto split: if_splits sum.splits prod.splits)
    from f show ?thesis
    proof (cases rule: fetchSpecifier_cases)
      case NoSpecifier
      with Cons.prems Some f have "followExportDeclarations fuel fetchModule P m e ds t = Inr x"
        by (auto split: if_splits)
      from Cons.IH[OF this] Some NoSpecifier(3) show ?thesis by (cases x) auto
    next
      case (Resolved spec fname target sm)
      from fm[OF Resolved(6)] have R1: "R t t1" and reg: "astModulesBySourceFile t1 target = Some sm"
        by simp_all
      from Cons.prems Some f Resolved(1) obtain a where
        g: "getExportOfAstModule fuel t1 (exportNameOf P d) sm = Inr a"
        and x: "x = Returned (setExportedSymbol m (symbolName P e) a t1)"
        by (auto simp: Let_def exportNameOf_def split: if_splits sum.splits)
      have "specifierTarget P t1 ed = Some sm"
        using Resolved reg by (simp add: specifierTarget_def)
      with R1 g x Some Resolved(2,3) show ?thesis by auto
    qed
  qed
qed

lemma collectExportForAstModule_shape:
  assumes "collectExportForAstModule loopFuel fuel fetchModule P m e current t = Inr t'"
    and fm: "\<And>sf ms u sm u'. fetchModule sf ms u = Inr (sm, u') \<Longrightarrow>
               R u u' \<and> astModulesBySourceFile u' sf = Some sm"
    and fs: "\<And>s u r u'. fetchAstSymbol fuel P s True None u = Inr (r, u') \<Longrightarrow> R u u'"
    and refl: "\<And>u. R u u"
    and trans: "\<And>u v w. R u v \<Longrightarrow> R v w \<Longrightarrow> R u w"
  shows "\<exists>c u. followsTo P current c \<and> R t u \<and> exportOutcome P fuel m e c u t'"
  using assms(1)
proof (induction loopFuel arbitrary: current t)
  case 0
  then show ?case by simp
next
  case (Suc loopFuel)
  from Suc.prems obtain x where
    f: "followExportDeclarations fuel fetchModule P m e (symbolDeclarations P current) t = Inr x"
    by (auto split: sum.splits)
  have sh: "(case x of
            Fell u \<Rightarrow> R t u \<and> reexportOf P (symbolDeclarations P current) = None
          | Returned t' \<Rightarrow>
              (\<exists>u decl ed sm a. R t u
                 \<and> reexportOf P (symbolDeclarations P current) = Some (decl, ed)
                 \<and> specifierTarget P u ed = Some sm
                 \<and> getExportOfAstModule fuel u (exportNameOf P decl) sm = Inr a
                 \<and> t' = setExportedSymbol m (symbolName P e) a u))"
    using f fm refl trans by (rule followExportDeclarations_shape)
  show ?case
  proof (cases x)
    case (Returned t1)
    with Suc.prems f have "t' = t1" by simp
    with sh Returned obtain u where "R t u" "exportOutcome P fuel m e current u t'"
      by (auto simp: exportOutcome_def)
    then show ?thesis using follows_start by blast
  next
    case (Fell t1)
    with sh have R1: "R t t1" and nr: "reexportOf P (symbolDeclarations P current) = None"
      by simp_all
    show ?thesis
    proof (cases "nextAlias P current")
      case (Some currentAlias)
      with Suc.prems f Fell
      have "collectExportForAstModule loopFuel fuel fetchModule P m e currentAlias t1 = Inr t'"
        by simp
      from Suc.IH[OF this] obtain c u where
        c: "followsTo P currentAlias c" and u: "R t1 u"
        and rest: "exportOutcome P fuel m e c u t'"
        by blast
      have "followsTo P current c" using nr Some c by (rule follows_step)
      moreover have "R t u" using R1 u by (rule trans)
      ultimately show ?thesis using rest by blast
    next
      case None
      with Suc.prems f Fell obtain r t2 where
        g: "fetchAstSymbol fuel P current True None t1 = Inr (r, t2)"
        and t': "t' = (case r of None \<Rightarrow> t2 | Some a \<Rightarrow> setExportedSymbol m (symbolName P e) a t2)"
        by (auto split: sum.splits option.splits prod.splits)
      have R2: "R t t2" using R1 fs[OF g] by (rule trans)
      have "if filteredFlags P current \<or> isAmbient P current then t' = t2
            else (\<exists>a. astSymbolsBySymbol t2 current = Some a
                    \<and> t' = setExportedSymbol m (symbolName P e) a t2)"
      proof (cases "filteredFlags P current \<or> isAmbient P current")
        case True
        with g have "r = None" by (cases fuel) (auto split: if_splits)
        with t' True show ?thesis by simp
      next
        case False
        with fetch_passing_result[OF g] obtain a where a: "r = Some a" by auto
        with g have "astSymbolsBySymbol t2 current = Some a" by (auto intro: fetch_bound)
        with a t' False show ?thesis by simp
      qed
      with nr None have "exportOutcome P fuel m e current t2 t'"
        by (simp add: exportOutcome_def)
      with R2 show ?thesis using follows_start by blast
    qed
  qed
qed

lemma collectExportsFromExportStar_rel:
  assumes "collectExportsFromExportStar fetchModule P m decl t = Inr t'"
    and fm: "\<And>sf ms u sm u'. fetchModule sf ms u = Inr (sm, u') \<Longrightarrow>
               R u u' \<and> astModulesBySourceFile u' sf = Some sm"
    and star: "\<And>u k sm. astModulesBySourceFile u k = Some sm \<Longrightarrow>
               R u (addStarExportedModule m sm u)"
    and refl: "\<And>u. R u u"
    and trans: "\<And>u v w. R u v \<Longrightarrow> R v w \<Longrightarrow> R u w"
  shows "R t t'"
proof (cases "nodeKind P decl = ExportDeclaration")
  case False
  with assms(1) show ?thesis by (simp add: collectExportsFromExportStar_def refl)
next
  case True
  with assms(1) obtain r t1 where f: "fetchSpecifierAstModule fetchModule P decl t = Inr (r, t1)"
    and t': "t' = (case r of None \<Rightarrow> t1 | Some sm \<Rightarrow> addStarExportedModule m sm t1)"
    by (auto simp: collectExportsFromExportStar_def split: sum.splits option.splits prod.splits)
  from f show ?thesis
  proof (cases rule: fetchSpecifier_cases)
    case NoSpecifier
    with t' show ?thesis by (simp add: refl)
  next
    case (Resolved spec fname target sm)
    from fm[OF Resolved(6)] have "R t t1" "astModulesBySourceFile t1 target = Some sm"
      by simp_all
    moreover from this(2) have "R t1 (addStarExportedModule m sm t1)" by (rule star)
    ultimately show ?thesis using t' Resolved(1) by (auto intro: trans)
  qed
qed

lemma collectExportStars_rel:
  assumes "collectExportStars fetchModule P m decls t = Inr t'"
    and fm: "\<And>sf ms u sm u'. fetchModule sf ms u = Inr (sm, u') \<Longrightarrow>
               R u u' \<and> astModulesBySourceFile u' sf = Some sm"
    and star: "\<And>u k sm. astModulesBySourceFile u k = Some sm \<Longrightarrow>
               R u (addStarExportedModule m sm u)"
    and refl: "\<And>u. R u u"
    and trans: "\<And>u v w. R u v \<Longrightarrow> R v w \<Longrightarrow> R u w"
  shows "R t t'"
  using assms(1)
proof (induction decls arbitrary: t)
  case Nil
  then show ?case by (simp add: refl)
next
  case (Cons d ds)
  from Cons.prems obtain t1 where
    a: "collectExportsFromExportStar fetchModule P m d t = Inr t1"
    and r: "collectExportStars fetchModule P m ds t1 = Inr t'"
    by (auto split: sum.splits)
  have "R t t1" using a fm star refl trans by (rule collectExportsFromExportStar_rel)
  moreover have "R t1 t'" using r by (rule Cons.IH)
  ultimately show ?case by (rule trans)
qed

lemma collectExportForAstModule_rel:
  assumes "collectExportForAstModule loopFuel fuel fetchModule P m e current t = Inr t'"
    and fm: "\<And>sf ms u sm u'. fetchModule sf ms u = Inr (sm, u') \<Longrightarrow>
               R u u' \<and> astModulesBySourceFile u' sf = Some sm"
    and fs: "\<And>s u r u'. fetchAstSymbol fuel P s True None u = Inr (r, u') \<Longrightarrow> R u u'"
    and setE: "\<And>u a. R u (setExportedSymbol m (symbolName P e) a u)"
    and refl: "\<And>u. R u u"
    and trans: "\<And>u v w. R u v \<Longrightarrow> R v w \<Longrightarrow> R u w"
  shows "R t t'"
proof -
  have "\<exists>c u. followsTo P current c \<and> R t u \<and> exportOutcome P fuel m e c u t'"
    using assms(1) fm fs refl trans by (rule collectExportForAstModule_shape)
  then obtain c u where u: "R t u" and o: "exportOutcome P fuel m e c u t'" by blast
  from o have "t' = u \<or> (\<exists>a. t' = setExportedSymbol m (symbolName P e) a u)"
    by (auto simp: exportOutcome_def split: option.splits if_splits)
  with u show ?thesis using setE trans by blast
qed

lemma collectLocalExports_rel:
  assumes "collectLocalExports fuel fetchModule P m es t = Inr t'"
    and fm: "\<And>sf ms u sm u'. fetchModule sf ms u = Inr (sm, u') \<Longrightarrow>
               R u u' \<and> astModulesBySourceFile u' sf = Some sm"
    and fs: "\<And>s u r u'. fetchAstSymbol fuel P s True None u = Inr (r, u') \<Longrightarrow> R u u'"
    and star: "\<And>u k sm. astModulesBySourceFile u k = Some sm \<Longrightarrow>
               R u (addStarExportedModule m sm u)"
    and setE: "\<And>u n a. R u (setExportedSymbol m n a u)"
    and refl: "\<And>u. R u u"
    and trans: "\<And>u v w. R u v \<Longrightarrow> R v w \<Longrightarrow> R u w"
  shows "R t t'"
  using assms(1)
proof (induction es arbitrary: t)
  case Nil
  then show ?case by (simp add: refl)
next
  case (Cons e es)
  from Cons.prems obtain t1 where
    a: "(if symbolEscapedName P e = ExportStar
            then collectExportStars fetchModule P m (symbolDeclarations P e) t
            else collectExportForAstModule fuel fuel fetchModule P m e e t) = Inr t1"
    and r: "collectLocalExports fuel fetchModule P m es t1 = Inr t'"
    by (auto split: sum.splits)
  have "R t t1"
  proof (cases "symbolEscapedName P e = ExportStar")
    case True
    with a have "collectExportStars fetchModule P m (symbolDeclarations P e) t = Inr t1" by simp
    then show ?thesis using fm star refl trans by (rule collectExportStars_rel)
  next
    case False
    with a have "collectExportForAstModule fuel fuel fetchModule P m e e t = Inr t1" by simp
    then show ?thesis using fm fs setE refl trans by (rule collectExportForAstModule_rel)
  qed
  moreover have "R t1 t'" using r by (rule Cons.IH)
  ultimately show ?case by (rule trans)
qed

lemma collectExternalExports_rel:
  assumes "collectExternalExports fuel P m path es t = Inr t'"
    and fs: "\<And>s imp u r u'. fetchAstSymbol fuel P s True imp u = Inr (r, u') \<Longrightarrow> R u u'"
    and setE: "\<And>u n a. R u (setExportedSymbol m n a u)"
    and refl: "\<And>u. R u u"
    and trans: "\<And>u v w. R u v \<Longrightarrow> R v w \<Longrightarrow> R u w"
  shows "R t t'"
  using assms(1)
proof (induction es arbitrary: t)
  case Nil
  then show ?case by (simp add: refl)
next
  case (Cons e es)
  let ?imp = "\<lparr> exportName = symbolName P e, modulePath = path \<rparr>"
  from Cons.prems obtain a t1 where
    g: "fetchAstSymbol fuel P (followAliases P e) True (Some ?imp) t = Inr (Some a, t1)"
    and r: "collectExternalExports fuel P m path es (setExportedSymbol m (symbolName P e) a t1) = Inr t'"
    by (auto simp: Let_def split: sum.splits option.splits prod.splits)
  have "R t t1" using g by (rule fs)
  moreover have "R t1 (setExportedSymbol m (symbolName P e) a t1)" by (rule setE)
  moreover have "R (setExportedSymbol m (symbolName P e) a t1) t'" using r by (rule Cons.IH)
  ultimately show ?case using trans by blast
qed

lemma modulesKept_refl [simp]: "modulesKept t t"
  by (simp add: modulesKept_def)

lemma modulesKept_trans: "modulesKept t u \<Longrightarrow> modulesKept u v \<Longrightarrow> modulesKept t v"
  by (auto simp: modulesKept_def)

lemma moduleFrame_refl [simp]: "moduleFrame m t t"
  by (simp add: moduleFrame_def)

lemma moduleFrame_trans: "moduleFrame m t u \<Longrightarrow> moduleFrame m u v \<Longrightarrow> moduleFrame m t v"
  unfolding moduleFrame_def by (metis le_trans less_le_trans)

lemma modulesKept_frame: "modulesKept t t' \<Longrightarrow> moduleFrame m t t'"
  by (simp add: modulesKept_def moduleFrame_def)

lemma sameModules_kept: "sameModules t t' \<Longrightarrow> modulesKept t t'"
  by (simp add: sameModules_def modulesKept_def)

lemma setExportedSymbol_frame: "moduleFrame m t (setExportedSymbol m n a t)"
  by (simp add: moduleFrame_def setExportedSymbol_def)

lemma addStarExportedModule_frame: "moduleFrame m t (addStarExportedModule m sm t)"
  by (simp add: moduleFrame_def addStarExportedModule_def)

lemma fetchModule_kept:
  "fetchAstModuleBySourceFile fuel P sf ms t = Inr (m, t') \<Longrightarrow> modulesKept t t'"
proof (induction fuel arbitrary: sf ms t m t')
  case 0
  then show ?case by simp
next
  case (Suc fuel)
  have fm: "\<And>sf ms u sm u'. fetchAstModuleBySourceFile fuel P sf ms u = Inr (sm, u') \<Longrightarrow>
              moduleFrame m u u' \<and> astModulesBySourceFile u' sf = Some sm"
    by (auto intro: modulesKept_frame Suc.IH fetchModule_registered)
  have fs: "\<And>s add imp u r u'. fetchAstSymbol fuel P s add imp u = Inr (r, u') \<Longrightarrow>
              moduleFrame m u u'"
    by (auto intro: modulesKept_frame sameModules_kept fetch_sameModules)
  have new: "m = nextAstModule t \<Longrightarrow> moduleFrame m (snd (newAstModule sf t)) t' \<Longrightarrow>
               modulesKept t t'"
    by (auto simp: moduleFrame_def modulesKept_def newAstModule_def Let_def)
  from Suc.prems show ?case
  proof (cases rule: fetchModule_Suc_cases)
    case Hit
    then show ?thesis by simp
  next
    case (External moduleSymbol path)
    have "moduleFrame m (setExternalModulePath m path (snd (newAstModule sf t))) t'"
      using External(5) fs setExportedSymbol_frame moduleFrame_refl moduleFrame_trans
      by (rule collectExternalExports_rel)
    with External(2) show ?thesis
      by (auto simp: moduleFrame_def modulesKept_def newAstModule_def Let_def
          setExternalModulePath_def)
  next
    case (NoExports moduleSymbol)
    then show ?thesis by (simp add: modulesKept_def newAstModule_def Let_def)
  next
    case (Local moduleSymbol exports)
    have "moduleFrame m (snd (newAstModule sf t)) t'"
      using Local(6) fm fs addStarExportedModule_frame setExportedSymbol_frame
        moduleFrame_refl moduleFrame_trans
      by (rule collectLocalExports_rel)
    with Local(2) show ?thesis by (rule new)
  qed
qed

lemma mwf_cache: "modulesWellFormed t \<Longrightarrow> astModulesBySourceFile t k = Some h \<Longrightarrow> h < nextAstModule t"
  unfolding modulesWellFormed_def by blast

lemma mwf_closed: "modulesWellFormed t \<Longrightarrow> modulesClosed t"
  by (simp add: modulesWellFormed_def)

lemma mwf_star:
  "modulesWellFormed t \<Longrightarrow> m < nextAstModule t \<Longrightarrow>
   m' \<in> set (starExportedModules (astModules t m)) \<Longrightarrow> m' < nextAstModule t"
  unfolding modulesWellFormed_def modulesClosed_def by blast

lemma sameModules_mwf: "sameModules t t' \<Longrightarrow> modulesWellFormed t \<Longrightarrow> modulesWellFormed t'"
  by (simp add: sameModules_def modulesWellFormed_def modulesClosed_def)

lemma setExportedSymbol_mwf:
  "modulesWellFormed t \<Longrightarrow> modulesWellFormed (setExportedSymbol m n a t)"
  by (simp add: modulesWellFormed_def modulesClosed_def setExportedSymbol_def)

lemma setExternalModulePath_mwf:
  "modulesWellFormed t \<Longrightarrow> modulesWellFormed (setExternalModulePath m p t)"
  by (simp add: modulesWellFormed_def modulesClosed_def setExternalModulePath_def)

lemma addStarExportedModule_mwf:
  assumes "modulesWellFormed t" and "astModulesBySourceFile t k = Some sm"
  shows "modulesWellFormed (addStarExportedModule m sm t)"
proof -
  from assms have "sm < nextAstModule t" by (rule mwf_cache)
  with assms(1) show ?thesis
    by (auto simp: modulesWellFormed_def modulesClosed_def addStarExportedModule_def)
qed

lemma newAstModule_mwf:
  assumes "modulesWellFormed t"
  shows "modulesWellFormed (snd (newAstModule sf t))"
  using assms
  by (auto simp: modulesWellFormed_def modulesClosed_def newAstModule_def Let_def less_Suc_eq
      split: if_splits)

lemma fetchModule_mwf:
  "fetchAstModuleBySourceFile fuel P sf ms t = Inr (m, t') \<Longrightarrow> modulesWellFormed t \<Longrightarrow>
   modulesWellFormed t'"
proof (induction fuel arbitrary: sf ms t m t')
  case 0
  then show ?case by simp
next
  case (Suc fuel)
  let ?R = "\<lambda>u u'. modulesWellFormed u \<longrightarrow> modulesWellFormed u'"
  have fm: "\<And>sf ms u sm u'. fetchAstModuleBySourceFile fuel P sf ms u = Inr (sm, u') \<Longrightarrow>
              ?R u u' \<and> astModulesBySourceFile u' sf = Some sm"
    by (auto intro: Suc.IH fetchModule_registered)
  have fs: "\<And>s add imp u r u'. fetchAstSymbol fuel P s add imp u = Inr (r, u') \<Longrightarrow> ?R u u'"
    by (auto intro: sameModules_mwf fetch_sameModules)
  have star: "\<And>u k sm. astModulesBySourceFile u k = Some sm \<Longrightarrow>
               ?R u (addStarExportedModule m sm u)"
    by (auto intro: addStarExportedModule_mwf)
  have setE: "\<And>u n a. ?R u (setExportedSymbol m n a u)"
    by (auto intro: setExportedSymbol_mwf)
  from Suc.prems(1) show ?case
  proof (cases rule: fetchModule_Suc_cases)
    case Hit
    with Suc.prems(2) show ?thesis by simp
  next
    case (External moduleSymbol path)
    have "?R (setExternalModulePath m path (snd (newAstModule sf t))) t'"
      using External(5) fs setE by (rule collectExternalExports_rel) auto
    with Suc.prems(2) show ?thesis by (simp add: newAstModule_mwf setExternalModulePath_mwf)
  next
    case (NoExports moduleSymbol)
    with Suc.prems(2) show ?thesis by (simp add: newAstModule_mwf)
  next
    case (Local moduleSymbol exports)
    have "?R (snd (newAstModule sf t)) t'"
      using Local(6) fm fs star setE by (rule collectLocalExports_rel) auto
    with Suc.prems(2) show ?thesis by (simp add: newAstModule_mwf)
  qed
qed

lemma exportsKept_refl [simp]: "exportsKept t t"
  by (simp add: exportsKept_def)

lemma exportsKept_trans: "exportsKept t u \<Longrightarrow> exportsKept u v \<Longrightarrow> exportsKept t v"
  unfolding exportsKept_def by (meson le_trans less_le_trans)

lemma modulesKept_exportsKept: "modulesKept t t' \<Longrightarrow> exportsKept t t'"
  by (simp add: modulesKept_def exportsKept_def)

lemma addStarExportedModule_exportsKept: "exportsKept t (addStarExportedModule m sm t)"
  by (simp add: exportsKept_def addStarExportedModule_def)

lemma setExportedSymbol_exportsKept:
  "exportedSymbols (astModules t m) n = None \<Longrightarrow> exportsKept t (setExportedSymbol m n a t)"
  by (auto simp: exportsKept_def setExportedSymbol_def)

lemma starEdge_stable:
  assumes "(m, m') \<in> (starEdge t)\<^sup>*" and "modulesWellFormed t" and "m < nextAstModule t"
    and "tableExtends t t'"
  shows "m' < nextAstModule t \<and> (m, m') \<in> (starEdge t')\<^sup>*"
  using assms(1)
proof (induction rule: rtrancl_induct)
  case base
  then show ?case using assms(3) by simp
next
  case (step y z)
  then have y: "y < nextAstModule t" and p: "(m, y) \<in> (starEdge t')\<^sup>*" by simp_all
  from step(2) have z: "z \<in> set (starExportedModules (astModules t y))"
    by (simp add: starEdge_def)
  with assms(2) y have "z < nextAstModule t" by (rule mwf_star)
  moreover from tableExtends_stars[OF assms(4) y] z
  have "(y, z) \<in> starEdge t'" by (auto simp: starEdge_def)
  ultimately show ?case using p by (auto intro: rtrancl_into_rtrancl)
qed

lemma exportReachable_stable:
  assumes "exportReachable t m n a" and "modulesWellFormed t" and "m < nextAstModule t"
    and "tableExtends t t'" and "exportsKept t t'"
  shows "exportReachable t' m n a"
proof -
  from assms(1) obtain m' where p: "(m, m') \<in> (starEdge t)\<^sup>*"
    and b: "exportedSymbols (astModules t m') n = Some a"
    by (auto simp: exportReachable_def)
  from starEdge_stable[OF p assms(2,3,4)]
  have "m' < nextAstModule t" "(m, m') \<in> (starEdge t')\<^sup>*" by simp_all
  moreover from this(1) b assms(5) have "exportedSymbols (astModules t' m') n = Some a"
    by (auto simp: exportsKept_def)
  ultimately show ?thesis by (auto simp: exportReachable_def)
qed

lemma getExport_reachable:
  "getExportOfAstModule fuel t n m = Inr a \<Longrightarrow> exportReachable t m n a"
  by (auto simp: getExportOfAstModule_def exportReachable_def
      split: sum.splits option.splits prod.splits dest: tryGet_found)

lemma specifierTarget_stable:
  "specifierTarget P t ed = Some sm \<Longrightarrow> tableExtends t t' \<Longrightarrow> specifierTarget P t' ed = Some sm"
  by (auto simp: specifierTarget_def split: option.splits dest: tableExtends_byModule)

lemma specifierTarget_bound:
  "specifierTarget P t ed = Some sm \<Longrightarrow> modulesWellFormed t \<Longrightarrow> sm < nextAstModule t"
  by (auto simp: specifierTarget_def split: option.splits dest: mwf_cache)

lemma preserves_refl [simp]: "preserves P S t t"
  by (simp add: preserves_def)

lemma preserves_trans: "preserves P S t u \<Longrightarrow> preserves P S u v \<Longrightarrow> preserves P S t v"
  by (simp add: preserves_def)

lemma exportBound_stable:
  assumes r: "exportBound P t m e c" and "modulesWellFormed t"
    and "tableExtends t t'" and "exportsKept t t'"
    and same: "exportedSymbols (astModules t' m) (symbolName P e)
             = exportedSymbols (astModules t m) (symbolName P e)"
  shows "exportBound P t' m e c"
proof (cases "reexportOf P (symbolDeclarations P c)")
  case None
  have "\<forall>a. astSymbolsBySymbol t c = Some a \<longrightarrow> astSymbolsBySymbol t' c = Some a"
    using assms(3) by (blast intro: tableExtends_bySymbol)
  with None r same show ?thesis by (auto simp: exportBound_def)
next
  case (Some p)
  obtain decl ed where p: "p = (decl, ed)" by (cases p)
  with r Some obtain sm a where s: "specifierTarget P t ed = Some sm"
    and x: "exportReachable t sm (exportNameOf P decl) a"
    and b: "exportedSymbols (astModules t m) (symbolName P e) = Some a"
    by (auto simp: exportBound_def)
  from s assms(2) have "sm < nextAstModule t" by (rule specifierTarget_bound)
  with x assms(2) have "exportReachable t' sm (exportNameOf P decl) a"
    using assms(3,4) by (rule exportReachable_stable)
  moreover from s assms(3) have "specifierTarget P t' ed = Some sm"
    by (rule specifierTarget_stable)
  ultimately show ?thesis using Some p b same by (auto simp: exportBound_def)
qed

lemma directExportResolved_stable:
  assumes "directExportResolved P t m e" and "modulesWellFormed t"
    and "tableExtends t t'" and "exportsKept t t'"
    and same: "exportedSymbols (astModules t' m) (symbolName P e)
             = exportedSymbols (astModules t m) (symbolName P e)"
  shows "directExportResolved P t' m e"
  using assms unfolding directExportResolved_def by (blast intro: exportBound_stable)

lemma exportResolved_stable:
  assumes "exportResolved P t m e" and "modulesWellFormed t" and "m < nextAstModule t"
    and "tableExtends t t'" and "exportsKept t t'"
    and same: "symbolEscapedName P e \<noteq> ExportStar \<Longrightarrow>
               exportedSymbols (astModules t' m) (symbolName P e)
             = exportedSymbols (astModules t m) (symbolName P e)"
  shows "exportResolved P t' m e"
proof (cases "symbolEscapedName P e = ExportStar")
  case True
  with assms(1) have "wildcardsResolved P t m e" by (simp add: exportResolved_def)
  then have "wildcardsResolved P t' m e"
    unfolding wildcardsResolved_def
    using wildcardTargetResolved_extends[OF _ assms(4,3)] by blast
  with True show ?thesis by (simp add: exportResolved_def)
next
  case False
  with assms(1) have "directExportResolved P t m e" by (simp add: exportResolved_def)
  then have "directExportResolved P t' m e"
    using assms(2,4,5) same[OF False] by (rule directExportResolved_stable)
  with False show ?thesis by (simp add: exportResolved_def)
qed

lemma moduleResolved_stable:
  assumes "moduleResolved P t m" and "modulesWellFormed t" and "m < nextAstModule t"
    and "tableExtends t t'" and "exportsKept t t'"
    and same: "astModules t' m = astModules t m"
  shows "moduleResolved P t' m"
  unfolding moduleResolved_def
proof (intro impI allI conjI ballI)
  fix ms exports e
  assume x: "externalModulePath (astModules t' m) = None"
    and s: "getSymbolForDeclaration P (sourceFile (astModules t' m)) = Some ms
            \<and> symbolExports P ms = Some exports"
    and e: "e \<in> set exports"
  with assms(1) same have "exportResolved P t m e" by (simp add: moduleResolved_def)
  then show "exportResolved P t' m e"
    using assms(2,3,4,5) by (rule exportResolved_stable) (simp add: same)
next
  fix ms exports n
  assume x: "externalModulePath (astModules t' m) = None"
    and s: "getSymbolForDeclaration P (sourceFile (astModules t' m)) = Some ms
            \<and> symbolExports P ms = Some exports"
    and n: "n \<notin> symbolName P ` set (directExports P exports)"
  with assms(1) same show "exportedSymbols (astModules t' m) n = None"
    by (simp add: moduleResolved_def)
qed

lemma preservesI:
  assumes "modulesWellFormed t" and "tableExtends t t'" and "exportsKept t t'"
    and old: "\<And>m. m < nextAstModule t \<Longrightarrow> m \<notin> S \<Longrightarrow> astModules t' m = astModules t m"
    and new: "\<And>m. nextAstModule t \<le> m \<Longrightarrow> m < nextAstModule t' \<Longrightarrow> m \<notin> S \<Longrightarrow>
                moduleResolved P t' m"
  shows "preserves P S t t'"
  unfolding preserves_def resolvedSince_def
proof (intro allI impI)
  fix b m
  assume h: "\<forall>m. b \<le> m \<and> m < nextAstModule t \<and> m \<notin> S \<longrightarrow> moduleResolved P t m"
    and m: "b \<le> m \<and> m < nextAstModule t' \<and> m \<notin> S"
  show "moduleResolved P t' m"
  proof (cases "m < nextAstModule t")
    case True
    with h m have "moduleResolved P t m" by simp
    then show ?thesis
      using assms(1) True assms(2,3) by (rule moduleResolved_stable) (use m True in \<open>simp add: old\<close>)
  next
    case False
    with m show ?thesis by (simp add: new)
  qed
qed

lemma localStep_refl [simp]: "localStep P S m N t t"
  by (simp add: localStep_def)

lemma localStep_trans:
  assumes "localStep P S m N t u" and "localStep P S m N u v"
  shows "localStep P S m N t v"
proof -
  have lt: "m < nextAstModule t \<Longrightarrow> m < nextAstModule u"
    using assms(1) by (auto simp: localStep_def dest: tableExtends_nextModule)
  show ?thesis
    unfolding localStep_def
  proof (intro conjI impI allI)
    show "tableExtends t v" using assms by (auto simp: localStep_def intro: tableExtends_trans)
    show "exportsKept t v" using assms by (auto simp: localStep_def intro: exportsKept_trans)
    show "moduleFrame m t v" using assms by (auto simp: localStep_def intro: moduleFrame_trans)
  next
    fix n assume "m < nextAstModule t" "n \<notin> N"
    with lt assms show "exportedSymbols (astModules v m) n = exportedSymbols (astModules t m) n"
      by (simp add: localStep_def)
  next
    assume h: "m < nextAstModule t \<and> modulesWellFormed t"
    with assms(1) have u: "modulesWellFormed u" "preserves P S t u" by (simp_all add: localStep_def)
    with lt h assms(2) have v: "modulesWellFormed v" "preserves P S u v"
      by (simp_all add: localStep_def)
    from v(1) show "modulesWellFormed v" .
    from u(2) v(2) show "preserves P S t v" by (rule preserves_trans)
  qed
qed

lemma localStep_mono: "localStep P S m N t t' \<Longrightarrow> N \<subseteq> N' \<Longrightarrow> localStep P S m N' t t'"
  unfolding localStep_def by blast

lemma localStep_kept:
  assumes "tableExtends t t'" and "modulesKept t t'"
    and "modulesWellFormed t \<Longrightarrow> modulesWellFormed t'"
    and "modulesWellFormed t \<Longrightarrow> preserves P S t t'"
  shows "localStep P S m N t t'"
  using assms
  by (auto simp: localStep_def modulesKept_exportsKept modulesKept_frame modulesKept_def)

lemma localStep_set:
  assumes "exportedSymbols (astModules t m) n = None" and "m \<in> S"
  shows "localStep P S m {n} t (setExportedSymbol m n a t)"
  unfolding localStep_def
proof (intro conjI impI allI)
  show e: "tableExtends t (setExportedSymbol m n a t)" by (rule setExportedSymbol_extends)
  show k: "exportsKept t (setExportedSymbol m n a t)"
    using assms(1) by (rule setExportedSymbol_exportsKept)
  show "moduleFrame m t (setExportedSymbol m n a t)" by (rule setExportedSymbol_frame)
  {
    assume "m < nextAstModule t \<and> modulesWellFormed t"
    then have w: "modulesWellFormed t" by simp
    then show "modulesWellFormed (setExportedSymbol m n a t)" by (rule setExportedSymbol_mwf)
    from w e k show "preserves P S t (setExportedSymbol m n a t)"
      by (rule preservesI) (use assms(2) in \<open>auto simp: setExportedSymbol_def\<close>)
  }
qed (simp add: setExportedSymbol_def)

lemma localStep_star:
  assumes "astModulesBySourceFile t k = Some sm" and "m \<in> S"
  shows "localStep P S m {} t (addStarExportedModule m sm t)"
  unfolding localStep_def
proof (intro conjI impI allI)
  show e: "tableExtends t (addStarExportedModule m sm t)" by (rule addStarExportedModule_extends)
  show k: "exportsKept t (addStarExportedModule m sm t)"
    by (rule addStarExportedModule_exportsKept)
  show "moduleFrame m t (addStarExportedModule m sm t)" by (rule addStarExportedModule_frame)
  {
    assume "m < nextAstModule t \<and> modulesWellFormed t"
    then have w: "modulesWellFormed t" by simp
    then show "modulesWellFormed (addStarExportedModule m sm t)"
      using assms(1) by (rule addStarExportedModule_mwf)
    from w e k show "preserves P S t (addStarExportedModule m sm t)"
      by (rule preservesI) (use assms(2) in \<open>auto simp: addStarExportedModule_def\<close>)
  }
qed (simp add: addStarExportedModule_def)

lemma fetch_step:
  assumes "fetchAstSymbol fuel P s add imp t = Inr (r, t')"
  shows "localStep P S m N t t'"
proof (rule localStep_kept)
  have s: "sameModules t t'" using assms by (rule fetch_sameModules)
  show e: "tableExtends t t'" using assms by (rule fetch_extends)
  show k: "modulesKept t t'" using s by (rule sameModules_kept)
  show "modulesWellFormed t \<Longrightarrow> modulesWellFormed t'" using s by (rule sameModules_mwf)
  show "modulesWellFormed t \<Longrightarrow> preserves P S t t'"
    using e k s
    by (intro preservesI) (auto simp: modulesKept_exportsKept modulesKept_def sameModules_def)
qed

lemma fetchModule_step:
  assumes "fetchAstModuleBySourceFile fuel P sf ms t = Inr (sm, t')"
    and "modulesWellFormed t \<Longrightarrow> preserves P S t t'"
  shows "localStep P S m N t t' \<and> astModulesBySourceFile t' sf = Some sm"
proof
  show "localStep P S m N t t'"
  proof (rule localStep_kept)
    show "tableExtends t t'" using assms(1) by (rule fetchAstModuleBySourceFile_extends)
    show "modulesKept t t'" using assms(1) by (rule fetchModule_kept)
    show "modulesWellFormed t \<Longrightarrow> modulesWellFormed t'" using assms(1) by (rule fetchModule_mwf)
  qed (rule assms(2))
  show "astModulesBySourceFile t' sf = Some sm" using assms(1) by (rule fetchModule_registered)
qed

lemma direct_step:
  assumes run: "collectExportForAstModule loopFuel fuel (fetchAstModuleBySourceFile fuel P) P m e e t
                  = Inr t'"
    and IH: "\<And>sf ms u sm u'. fetchAstModuleBySourceFile fuel P sf ms u = Inr (sm, u') \<Longrightarrow>
               modulesWellFormed u \<Longrightarrow> preserves P S u u'"
    and S: "m \<in> S" and m: "m < nextAstModule t" and w: "modulesWellFormed t"
    and fresh: "exportedSymbols (astModules t m) (symbolName P e) = None"
  shows "localStep P S m {symbolName P e} t t' \<and> directExportResolved P t' m e"
proof -
  let ?n = "symbolName P e"
  have fm: "\<And>sf ms u sm u'. fetchAstModuleBySourceFile fuel P sf ms u = Inr (sm, u') \<Longrightarrow>
              localStep P S m {} u u' \<and> astModulesBySourceFile u' sf = Some sm"
    by (rule fetchModule_step) (auto intro: IH)
  have fs: "\<And>s u r u'. fetchAstSymbol fuel P s True None u = Inr (r, u') \<Longrightarrow>
              localStep P S m {} u u'"
    by (rule fetch_step)
  have "\<exists>c u. followsTo P e c \<and> localStep P S m {} t u \<and> exportOutcome P fuel m e c u t'"
    using run fm fs localStep_refl localStep_trans by (rule collectExportForAstModule_shape)
  then obtain c u where c: "followsTo P e c" and u: "localStep P S m {} t u"
    and o: "exportOutcome P fuel m e c u t'"
    by blast
  from u m w have mu: "m < nextAstModule u" and wu: "modulesWellFormed u"
    and fu: "exportedSymbols (astModules u m) ?n = None"
    using fresh by (auto simp: localStep_def dest: tableExtends_nextModule)
  have su: "\<And>a. localStep P S m {?n} u (setExportedSymbol m ?n a u)"
    using fu S by (rule localStep_set)
  have u': "localStep P S m {?n} t u" using u by (rule localStep_mono) simp
  have "localStep P S m {?n} t t' \<and> exportBound P t' m e c"
  proof (cases "reexportOf P (symbolDeclarations P c)")
    case None
    show ?thesis
    proof (cases "filteredFlags P c \<or> isAmbient P c")
      case True
      with o None have "t' = u" by (simp add: exportOutcome_def)
      with u' fu None True o show ?thesis by (simp add: exportBound_def exportOutcome_def)
    next
      case False
      with o None obtain a where a: "astSymbolsBySymbol u c = Some a"
        and t': "t' = setExportedSymbol m ?n a u"
        by (auto simp: exportOutcome_def)
      from u' su[of a] t' have "localStep P S m {?n} t t'" by (auto intro: localStep_trans)
      moreover from o None False a t' have "exportBound P t' m e c"
        by (simp add: exportBound_def exportOutcome_def setExportedSymbol_def)
      ultimately show ?thesis ..
    qed
  next
    case (Some p)
    obtain decl ed where p: "p = (decl, ed)" by (cases p)
    with o Some obtain sm a where s: "specifierTarget P u ed = Some sm"
      and g: "getExportOfAstModule fuel u (exportNameOf P decl) sm = Inr a"
      and t': "t' = setExportedSymbol m ?n a u"
      by (auto simp: exportOutcome_def)
    from su[of a] t' have l: "localStep P S m {?n} u t'" by simp
    then have e: "tableExtends u t'" and k: "exportsKept u t'" by (simp_all add: localStep_def)
    from g have "exportReachable u sm (exportNameOf P decl) a" by (rule getExport_reachable)
    moreover from s wu have "sm < nextAstModule u" by (rule specifierTarget_bound)
    ultimately have "exportReachable t' sm (exportNameOf P decl) a"
      using wu e k by (blast intro: exportReachable_stable)
    moreover from s e have "specifierTarget P t' ed = Some sm" by (rule specifierTarget_stable)
    moreover have "exportedSymbols (astModules t' m) ?n = Some a"
      using t' by (simp add: setExportedSymbol_def)
    ultimately have "exportBound P t' m e c" using Some p by (auto simp: exportBound_def)
    moreover from u' l have "localStep P S m {?n} t t'" by (rule localStep_trans)
    ultimately show ?thesis by simp
  qed
  with c show ?thesis by (auto simp: directExportResolved_def)
qed

lemma star_step:
  assumes run: "collectExportStars (fetchAstModuleBySourceFile fuel P) P m
                  (symbolDeclarations P e) t = Inr t'"
    and IH: "\<And>sf ms u sm u'. fetchAstModuleBySourceFile fuel P sf ms u = Inr (sm, u') \<Longrightarrow>
               modulesWellFormed u \<Longrightarrow> preserves P S u u'"
    and S: "m \<in> S" and m: "m < nextAstModule t"
  shows "localStep P S m {} t t' \<and> wildcardsResolved P t' m e"
proof
  have fm: "\<And>sf ms u sm u'. fetchAstModuleBySourceFile fuel P sf ms u = Inr (sm, u') \<Longrightarrow>
              localStep P S m {} u u' \<and> astModulesBySourceFile u' sf = Some sm"
    by (rule fetchModule_step) (auto intro: IH)
  have star: "\<And>u k sm. astModulesBySourceFile u k = Some sm \<Longrightarrow>
               localStep P S m {} u (addStarExportedModule m sm u)"
    using S by (auto intro: localStep_star)
  show "localStep P S m {} t t'"
    using run fm star localStep_refl localStep_trans by (rule collectExportStars_rel)
  show "wildcardsResolved P t' m e"
    unfolding wildcardsResolved_def using collectExportStars_resolves[OF run m] by blast
qed

lemma collectLocalExports_resolved:
  assumes run: "collectLocalExports fuel (fetchAstModuleBySourceFile fuel P) P m es t = Inr t'"
    and IH: "\<And>sf ms u sm u'. fetchAstModuleBySourceFile fuel P sf ms u = Inr (sm, u') \<Longrightarrow>
               modulesWellFormed u \<Longrightarrow> preserves P S u u'"
    and S: "m \<in> S" and m: "m < nextAstModule t" and w: "modulesWellFormed t"
    and d: "distinct (map (symbolName P) (directExports P es))"
    and fresh: "\<forall>e \<in> set (directExports P es).
                  exportedSymbols (astModules t m) (symbolName P e) = None"
  shows "localStep P S m (symbolName P ` set (directExports P es)) t t'
         \<and> (\<forall>e \<in> set es. exportResolved P t' m e)"
  using run m w d fresh
proof (induction es arbitrary: t)
  case Nil
  then show ?case by simp
next
  case (Cons x xs)
  let ?fm = "fetchAstModuleBySourceFile fuel P"
  let ?Nx = "if symbolEscapedName P x = ExportStar then {} else {symbolName P x}"
  let ?Nr = "symbolName P ` set (directExports P xs)"
  from Cons.prems(1) obtain t1 where
    a: "(if symbolEscapedName P x = ExportStar
            then collectExportStars ?fm P m (symbolDeclarations P x) t
            else collectExportForAstModule fuel fuel ?fm P m x x t) = Inr t1"
    and r: "collectLocalExports fuel ?fm P m xs t1 = Inr t'"
    by (auto split: sum.splits)
  have step: "localStep P S m ?Nx t t1 \<and> exportResolved P t1 m x"
  proof (cases "symbolEscapedName P x = ExportStar")
    case True
    with a have "collectExportStars ?fm P m (symbolDeclarations P x) t = Inr t1" by simp
    from star_step[OF this IH S Cons.prems(2)] True show ?thesis
      by (simp add: exportResolved_def)
  next
    case False
    with a have c: "collectExportForAstModule fuel fuel ?fm P m x x t = Inr t1" by simp
    from False Cons.prems(5) have "exportedSymbols (astModules t m) (symbolName P x) = None"
      by (simp add: directExports_def)
    from direct_step[OF c IH S Cons.prems(2,3) this] False show ?thesis
      by (simp add: exportResolved_def)
  qed
  then have l1: "localStep P S m ?Nx t t1" and rx: "exportResolved P t1 m x" by simp_all
  from l1 Cons.prems(2,3) have m1: "m < nextAstModule t1" and w1: "modulesWellFormed t1"
    by (auto simp: localStep_def dest: tableExtends_nextModule)
  from Cons.prems(4) have d1: "distinct (map (symbolName P) (directExports P xs))"
    and nx: "symbolEscapedName P x \<noteq> ExportStar \<Longrightarrow> symbolName P x \<notin> ?Nr"
    by (auto simp: directExports_def split: if_splits)
  have f1: "\<forall>e \<in> set (directExports P xs).
              exportedSymbols (astModules t1 m) (symbolName P e) = None"
  proof
    fix e assume e: "e \<in> set (directExports P xs)"
    then have "symbolName P e \<in> ?Nr" by (rule imageI)
    then have "symbolName P e \<notin> ?Nx" using nx by (cases "symbolEscapedName P x = ExportStar") auto
    with l1 Cons.prems(2)
    have "exportedSymbols (astModules t1 m) (symbolName P e)
            = exportedSymbols (astModules t m) (symbolName P e)"
      by (simp add: localStep_def)
    also have "\<dots> = None" using e Cons.prems(5) by (simp add: directExports_def)
    finally show "exportedSymbols (astModules t1 m) (symbolName P e) = None" .
  qed
  from Cons.IH[OF r m1 w1 d1 f1] have l2: "localStep P S m ?Nr t1 t'"
    and rr: "\<forall>e \<in> set xs. exportResolved P t' m e"
    by simp_all
  have N: "?Nx \<union> ?Nr = symbolName P ` set (directExports P (x # xs))"
    by (auto simp: directExports_def)
  have "localStep P S m (?Nx \<union> ?Nr) t t'"
    using l1 l2 by (blast intro: localStep_trans localStep_mono)
  then have l: "localStep P S m (symbolName P ` set (directExports P (x # xs))) t t'"
    by (simp only: N)
  from l2 have e2: "tableExtends t1 t'" and k2: "exportsKept t1 t'" by (simp_all add: localStep_def)
  have "exportResolved P t' m x"
    using rx w1 m1 e2 k2
  proof (rule exportResolved_stable)
    assume "symbolEscapedName P x \<noteq> ExportStar"
    then have "symbolName P x \<notin> ?Nr" by (rule nx)
    with l2 m1 show "exportedSymbols (astModules t' m) (symbolName P x)
                     = exportedSymbols (astModules t1 m) (symbolName P x)"
      by (simp add: localStep_def)
  qed
  with rr l show ?case by simp
qed

lemma newAstModule_fields:
  "nextAstModule (snd (newAstModule sf t)) = Suc (nextAstModule t)"
  "sourceFile (astModules (snd (newAstModule sf t)) (nextAstModule t)) = sf"
  "externalModulePath (astModules (snd (newAstModule sf t)) (nextAstModule t)) = None"
  "exportedSymbols (astModules (snd (newAstModule sf t)) (nextAstModule t)) n = None"
  "m' < nextAstModule t \<Longrightarrow> astModules (snd (newAstModule sf t)) m' = astModules t m'"
  by (simp_all add: newAstModule_def Let_def)

lemma newAstModule_exportsKept: "exportsKept t (snd (newAstModule sf t))"
  by (simp add: exportsKept_def newAstModule_def Let_def)

lemma fetchModule_created:
  assumes "fetchAstModuleBySourceFile fuel P sf ms t = Inr (m, t')"
    and "astModulesBySourceFile t sf = None" and "externalPackagePath P ms = None"
  shows "m = nextAstModule t \<and> m < nextAstModule t' \<and> sourceFile (astModules t' m) = sf
         \<and> externalModulePath (astModules t' m) = None"
proof -
  obtain n where "fuel = Suc n" using assms(1) by (cases fuel) auto
  with assms(1) have "fetchAstModuleBySourceFile (Suc n) P sf ms t = Inr (m, t')" by simp
  then show ?thesis
  proof (cases rule: fetchModule_Suc_cases)
    case Hit
    with assms(2) show ?thesis by simp
  next
    case (External moduleSymbol path)
    with assms(3) show ?thesis by simp
  next
    case (NoExports moduleSymbol)
    then show ?thesis by (simp add: newAstModule_fields)
  next
    case (Local moduleSymbol exports)
    have fm: "\<And>sf ms u sm u'. fetchAstModuleBySourceFile n P sf ms u = Inr (sm, u') \<Longrightarrow>
              moduleFrame m u u' \<and> astModulesBySourceFile u' sf = Some sm"
      by (auto intro: modulesKept_frame fetchModule_kept fetchModule_registered)
    have fs: "\<And>s add imp u r u'. fetchAstSymbol n P s add imp u = Inr (r, u') \<Longrightarrow>
              moduleFrame m u u'"
      by (auto intro: modulesKept_frame sameModules_kept fetch_sameModules)
    have "moduleFrame m (snd (newAstModule sf t)) t'"
      using Local(6) fm fs addStarExportedModule_frame setExportedSymbol_frame
        moduleFrame_refl moduleFrame_trans
      by (rule collectLocalExports_rel)
    with Local(2) show ?thesis by (auto simp: moduleFrame_def newAstModule_fields)
  qed
qed

lemma fetchModule_preserves:
  "fetchAstModuleBySourceFile fuel P sf ms t = Inr (m, t') \<Longrightarrow> exportNamesDistinct P \<Longrightarrow>
   modulesWellFormed t \<Longrightarrow> preserves P S t t'"
proof (induction fuel arbitrary: sf ms t m t' S)
  case 0
  then show ?case by simp
next
  case (Suc fuel)
  note dist = Suc.prems(2) and w = Suc.prems(3)
  have e: "tableExtends t t'" using Suc.prems(1) by (rule fetchAstModuleBySourceFile_extends)
  have k: "modulesKept t t'" using Suc.prems(1) by (rule fetchModule_kept)
  then have old: "\<And>m'. m' < nextAstModule t \<Longrightarrow> astModules t' m' = astModules t m'"
    by (simp add: modulesKept_def)
  from Suc.prems(1) show ?case
  proof (cases rule: fetchModule_Suc_cases)
    case Hit
    then show ?thesis by simp
  next
    case (External moduleSymbol path)
    let ?R = "\<lambda>u u'. nextAstModule u' = nextAstModule u
                \<and> externalModulePath (astModules u' m) = externalModulePath (astModules u m)"
    have fs: "\<And>s imp u r u'. fetchAstSymbol fuel P s True imp u = Inr (r, u') \<Longrightarrow> ?R u u'"
      by (auto dest!: fetch_sameModules simp: sameModules_def)
    have "?R (setExternalModulePath m path (snd (newAstModule sf t))) t'"
      using External(5) fs by (rule collectExternalExports_rel) (auto simp: setExportedSymbol_def)
    with External(2) have n: "nextAstModule t' = Suc (nextAstModule t)"
      and x: "externalModulePath (astModules t' m) = Some path"
      by (simp_all add: setExternalModulePath_def newAstModule_def Let_def)
    show ?thesis
      using w e modulesKept_exportsKept[OF k]
    proof (rule preservesI)
      fix m' assume "nextAstModule t \<le> m'" "m' < nextAstModule t'"
      with n External(2) have "m' = m" by simp
      with x show "moduleResolved P t' m'" by (simp add: moduleResolved_def)
    qed (simp add: old)
  next
    case (NoExports moduleSymbol)
    show ?thesis
      using w e modulesKept_exportsKept[OF k]
    proof (rule preservesI)
      fix m' assume "nextAstModule t \<le> m'" "m' < nextAstModule t'"
      with NoExports(2,6) have "m' = m" by (simp add: newAstModule_fields)
      with NoExports show "moduleResolved P t' m'"
        by (simp add: moduleResolved_def newAstModule_fields)
    qed (simp add: old)
  next
    case (Local moduleSymbol exports)
    let ?t1 = "snd (newAstModule sf t)"
    let ?S = "insert m S"
    let ?N = "symbolName P ` set (directExports P exports)"
    have IH: "\<And>sf ms u sm u'. fetchAstModuleBySourceFile fuel P sf ms u = Inr (sm, u') \<Longrightarrow>
               modulesWellFormed u \<Longrightarrow> preserves P ?S u u'"
      using dist by (blast intro: Suc.IH)
    have m1: "m < nextAstModule ?t1" using Local(2) by (simp add: newAstModule_fields)
    have w1: "modulesWellFormed ?t1" using w by (rule newAstModule_mwf)
    have d: "distinct (map (symbolName P) (directExports P exports))"
      using dist Local(5) by (auto simp: exportNamesDistinct_def)
    have f: "\<forall>e \<in> set (directExports P exports).
               exportedSymbols (astModules ?t1 m) (symbolName P e) = None"
      using Local(2) by (simp add: newAstModule_fields)
    from collectLocalExports_resolved[OF Local(6) IH _ m1 w1 d f]
    have l: "localStep P ?S m ?N ?t1 t'" and r: "\<forall>e \<in> set exports. exportResolved P t' m e"
      by simp_all
    from fetchModule_created[OF Suc.prems(1) Local(1,4)]
    have c: "sourceFile (astModules t' m) = sf" "externalModulePath (astModules t' m) = None"
      by blast+
    have names: "\<forall>n. n \<notin> ?N \<longrightarrow> exportedSymbols (astModules t' m) n = None"
      using l m1 Local(2) by (simp add: localStep_def newAstModule_fields)
    have mr: "moduleResolved P t' m"
      using c Local(3,5) r names by (simp add: moduleResolved_def)
    have e1: "tableExtends t ?t1" using Local(1) by (rule newAstModule_extends)
    show ?thesis
      unfolding preserves_def
    proof (intro allI impI)
      fix b assume H: "resolvedSince P b S t"
      have "resolvedSince P b ?S ?t1"
        unfolding resolvedSince_def
      proof (intro allI impI)
        fix m' assume a: "b \<le> m' \<and> m' < nextAstModule ?t1 \<and> m' \<notin> ?S"
        with Local(2) have lt: "m' < nextAstModule t" by (simp add: newAstModule_fields)
        with a H have "moduleResolved P t m'" by (simp add: resolvedSince_def)
        then show "moduleResolved P ?t1 m'"
          using w lt e1 newAstModule_exportsKept
          by (rule moduleResolved_stable) (use lt in \<open>simp add: newAstModule_fields\<close>)
      qed
      moreover from l m1 w1 have "preserves P ?S ?t1 t'" by (simp add: localStep_def)
      ultimately have "resolvedSince P b ?S t'" by (simp add: preserves_def)
      with mr show "resolvedSince P b S t'" by (auto simp: resolvedSince_def)
    qed
  qed
qed

lemma exampleProgram_distinct: "exportNamesDistinct exampleProgram"
  by (auto simp: exportNamesDistinct_def exampleProgram_def directExports_def ExportStar_def
      split: if_splits)

lemma emptyTable_mwf: "modulesWellFormed emptyTable"
  by (simp add: modulesWellFormed_def modulesClosed_def emptyTable_def)

section \<open>What the analysis leaves as it is\<close>

lemma forEach_rel:
  assumes "forEach action xs t = Inr t'"
    and "\<And>x u u'. x \<in> set xs \<Longrightarrow> action x u = Inr u' \<Longrightarrow> R u u'"
    and refl: "\<And>u. R u u"
    and trans: "\<And>u v w. R u v \<Longrightarrow> R v w \<Longrightarrow> R u w"
  shows "R t t'"
  using assms(1,2)
proof (induction xs arbitrary: t)
  case Nil
  then show ?case by (simp add: refl)
next
  case (Cons x xs)
  from Cons.prems(1) obtain t1 where a: "action x t = Inr t1" and r: "forEach action xs t1 = Inr t'"
    by (auto split: sum.splits)
  have "R t t1" using Cons.prems(2)[of x t t1] a by simp
  moreover have "R t1 t'" using r Cons.prems(2) by (intro Cons.IH) auto
  ultimately show ?case by (rule trans)
qed

lemma recordReference_rel:
  assumes "recordReference fuel P n g t = Inr t'"
    and fs: "\<And>s u r u'. fetchAstSymbol fuel P s True None u = Inr (r, u') \<Longrightarrow> R u u'"
    and nr: "\<And>r u. R u (notifyReferencedAstSymbol g r u)"
    and refl: "\<And>u. R u u"
    and trans: "\<And>u v w. R u v \<Longrightarrow> R v w \<Longrightarrow> R u w"
  shows "R t t'"
proof (cases "nodeKind P n = TypeReference \<or> nodeKind P n = ExpressionWithTypeArguments
         \<or> nodeKind P n = ComputedPropertyName")
  case False
  with assms(1) show ?thesis by (simp add: recordReference_def refl)
next
  case True
  show ?thesis
  proof (cases "findFirstChildNode P n Identifier")
    case None
    with assms(1) True show ?thesis by (simp add: recordReference_def refl)
  next
    case (Some symbolNode)
    with assms(1) True obtain s r t1 where
      f: "fetchAstSymbol fuel P s True None t = Inr (r, t1)"
      and t': "t' = (case r of None \<Rightarrow> t1 | Some a \<Rightarrow> notifyReferencedAstSymbol g a t1)"
      by (auto simp: recordReference_def split: option.splits sum.splits prod.splits)
    have "R t t1" using f by (rule fs)
    moreover have "R t1 t'" using t' by (cases r) (simp_all add: refl nr)
    ultimately show ?thesis by (rule trans)
  qed
qed

lemma fetchAstDeclaration_rel:
  assumes "fetchAstDeclaration fuel P n t = Inr (r, t')"
    and fs: "\<And>s u r u'. fetchAstSymbol fuel P s True None u = Inr (r, u') \<Longrightarrow> R u u'"
    and refl: "\<And>u. R u u"
  shows "R t t'"
  using assms(1)
  by (auto simp: fetchAstDeclaration_def fetchAstSymbolForNode_def refl
      split: sum.splits option.splits prod.splits if_splits intro: fs)

lemma analyzeChildTree_rel:
  assumes fs: "\<And>fuel s u r u'. fetchAstSymbol fuel P s True None u = Inr (r, u') \<Longrightarrow> R u u'"
    and nr: "\<And>g r u. R u (notifyReferencedAstSymbol g r u)"
    and refl: "\<And>u. R u u"
    and trans: "\<And>u v w. R u v \<Longrightarrow> R v w \<Longrightarrow> R u w"
  shows "analyzeChildTree fuel P n g t = Inr t' \<Longrightarrow> R t t'"
proof (induction fuel arbitrary: n g t t')
  case 0
  then show ?case by simp
next
  case (Suc fuel)
  show ?case
  proof (cases "nodeKind P n = JSDocComment")
    case True
    with Suc.prems show ?thesis by (simp add: refl)
  next
    case False
    with Suc.prems obtain t1 d t2 where
      r: "recordReference fuel P n g t = Inr t1"
      and f: "fetchAstDeclaration fuel P n t1 = Inr (d, t2)"
      and l: "forEach (\<lambda>childNode. analyzeChildTree fuel P childNode
                         (case d of Some d' \<Rightarrow> d' | None \<Rightarrow> g)) (nodeChildren P n) t2 = Inr t'"
      by (auto split: sum.splits prod.splits)
    have "R t t1" using r fs nr refl trans by (rule recordReference_rel)
    moreover have "R t1 t2" using f fs refl by (rule fetchAstDeclaration_rel)
    moreover have "R t2 t'" using l by (rule forEach_rel) (auto intro: Suc.IH refl trans)
    ultimately show ?thesis using trans by blast
  qed
qed

lemma declarationForEachRecursive_rel:
  assumes act: "\<And>d u u'. action d u = Inr u' \<Longrightarrow> R u u'"
    and refl: "\<And>u. R u u"
    and trans: "\<And>u v w. R u v \<Longrightarrow> R v w \<Longrightarrow> R u w"
  shows "declarationForEachRecursive fuel action d t = Inr t' \<Longrightarrow> R t t'"
proof (induction fuel arbitrary: d t t')
  case 0
  then show ?case by simp
next
  case (Suc fuel)
  from Suc.prems obtain t1 where a: "action d t = Inr t1"
    and l: "forEach (declarationForEachRecursive fuel action) (children (astDeclarationObjs t1 d)) t1 = Inr t'"
    by (auto split: sum.splits)
  have "R t t1" using a by (rule act)
  moreover have "R t1 t'" using l by (rule forEach_rel) (auto intro: Suc.IH refl trans)
  ultimately show ?case by (rule trans)
qed

lemma analyze_rel:
  assumes fs: "\<And>fuel s u r u'. fetchAstSymbol fuel P s True None u = Inr (r, u') \<Longrightarrow> R u u'"
    and nr: "\<And>g r u. R u (notifyReferencedAstSymbol g r u)"
    and na: "\<And>a u. R u (notifyAnalyzed a u)"
    and refl: "\<And>u. R u u"
    and trans: "\<And>u v w. R u v \<Longrightarrow> R v w \<Longrightarrow> R u w"
  shows "analyze fuel P a t = Inr t' \<Longrightarrow> R t t'"
proof (induction fuel arbitrary: a t t')
  case 0
  then show ?case by simp
next
  case (Suc fuel)
  let ?root = "rootAstSymbol (astSymbols t a)"
  have walk: "\<And>t1. walkDeclarations fuel P ?root t = Inr t1 \<Longrightarrow> R t t1"
    unfolding walkDeclarations_def
    by (erule forEach_rel) (auto intro: analyzeChildTree_rel[OF fs nr refl trans] refl trans)
  from Suc.prems show ?case
  proof (cases rule: analyze_Suc_cases)
    case Already
    then show ?thesis by (simp add: refl)
  next
    case Nominal
    then show ?thesis by (simp add: na)
  next
    case (Imported t1)
    have "R t t1" using Imported(3) by (rule walk)
    moreover have "R t1 t'" using Imported(5) by (simp add: na)
    ultimately show ?thesis by (rule trans)
  next
    case (Local t1)
    have "R t t1" using Local(3) by (rule walk)
    moreover have "R t1 (notifyAnalyzed ?root t1)" by (rule na)
    moreover have "R (notifyAnalyzed ?root t1) t'"
      using Local(5) unfolding forEachDeclarationRecursive_def
    proof (rule forEach_rel)
      fix x u u'
      assume "declarationForEachRecursive fuel (analyzeReferences (analyze fuel P)) x u = Inr u'"
      then show "R u u'"
      proof (rule declarationForEachRecursive_rel[rotated 3])
        fix d v v' assume "analyzeReferences (analyze fuel P) d v = Inr v'"
        then show "R v v'"
          unfolding analyzeReferences_def
          by (rule forEach_rel) (auto split: if_splits intro: Suc.IH refl trans)
      qed (auto intro: refl trans)
    qed (auto intro: refl trans)
    ultimately show ?thesis using trans by blast
  qed
qed

lemma analyze_sameModules: "analyze fuel P a t = Inr t' \<Longrightarrow> sameModules t t'"
proof (rule analyze_rel)
  show "\<And>fuel s u r u'. fetchAstSymbol fuel P s True None u = Inr (r, u') \<Longrightarrow> sameModules u u'"
    by (rule fetch_sameModules)
qed (auto simp: sameModules_def notifyReferencedAstSymbol_def notifyAnalyzed_def)

lemma run_mwf: "run P t t' \<Longrightarrow> modulesWellFormed t \<Longrightarrow> modulesWellFormed t'"
proof (induction rule: run.induct)
  case (run_start t)
  then show ?case by simp
next
  case (run_fetchAstSymbol t t1 fuel s addIfMissing imp r t2)
  then show ?case by (blast intro: sameModules_mwf fetch_sameModules)
next
  case (run_fetchAstModule t t1 fuel sf spec m t2)
  then show ?case by (blast intro: fetchModule_mwf)
next
  case (run_analyze t t1 fuel a t2)
  then show ?case by (blast intro: sameModules_mwf analyze_sameModules)
qed

lemma sameModules_preserves:
  assumes "sameModules t t'" and "tableExtends t t'" and "modulesWellFormed t"
  shows "preserves P S t t'"
  using assms(3,2)
proof (rule preservesI)
  show "exportsKept t t'" using assms(1) by (simp add: sameModules_kept modulesKept_exportsKept)
qed (use assms(1) in \<open>auto simp: sameModules_def\<close>)

lemma run_preserves:
  assumes "run P t0 t" and "exportNamesDistinct P"
  shows "modulesWellFormed t0 \<and> resolvedSince P 0 {} t0 \<longrightarrow>
         modulesWellFormed t \<and> resolvedSince P 0 {} t"
  using assms(1)
proof (induction rule: run.induct)
  case (run_start t)
  show ?case by simp
next
  case (run_fetchAstSymbol t t1 fuel s addIfMissing imp r t2)
  show ?case
  proof
    assume "modulesWellFormed t \<and> resolvedSince P 0 {} t"
    with run_fetchAstSymbol(3) have w: "modulesWellFormed t1" and r: "resolvedSince P 0 {} t1"
      by simp_all
    have s: "sameModules t1 t2" using run_fetchAstSymbol(2) by (rule fetch_sameModules)
    moreover have "tableExtends t1 t2" using run_fetchAstSymbol(2) by (rule fetch_extends)
    ultimately have "preserves P {} t1 t2" using w by (rule sameModules_preserves)
    with w r s show "modulesWellFormed t2 \<and> resolvedSince P 0 {} t2"
      by (auto simp: preserves_def intro: sameModules_mwf)
  qed
next
  case (run_fetchAstModule t t1 fuel sf spec m t2)
  show ?case
  proof
    assume "modulesWellFormed t \<and> resolvedSince P 0 {} t"
    with run_fetchAstModule(3) have w: "modulesWellFormed t1" and r: "resolvedSince P 0 {} t1"
      by simp_all
    have "preserves P {} t1 t2"
      using run_fetchAstModule(2) assms(2) w by (rule fetchModule_preserves)
    moreover have "modulesWellFormed t2" using run_fetchAstModule(2) w by (rule fetchModule_mwf)
    ultimately show "modulesWellFormed t2 \<and> resolvedSince P 0 {} t2"
      using r by (simp add: preserves_def)
  qed
next
  case (run_analyze t t1 fuel a t2)
  show ?case
  proof
    assume "modulesWellFormed t \<and> resolvedSince P 0 {} t"
    with run_analyze(3) have w: "modulesWellFormed t1" and r: "resolvedSince P 0 {} t1"
      by simp_all
    have s: "sameModules t1 t2" using run_analyze(2) by (rule analyze_sameModules)
    moreover have "tableExtends t1 t2" using run_analyze(2) by (rule analyze_extends)
    ultimately have "preserves P {} t1 t2" using w by (rule sameModules_preserves)
    with w r s show "modulesWellFormed t2 \<and> resolvedSince P 0 {} t2"
      by (auto simp: preserves_def intro: sameModules_mwf)
  qed
qed

lemma run_resolved:
  assumes "run P emptyTable t" and "exportNamesDistinct P"
  shows "modulesWellFormed t \<and> resolvedSince P 0 {} t"
proof -
  have "modulesWellFormed emptyTable" by (rule emptyTable_mwf)
  moreover have "resolvedSince P 0 {} emptyTable" by (simp add: resolvedSince_def emptyTable_def)
  ultimately show ?thesis using run_preserves[OF assms] by simp
qed

text \<open>
  Claim C3, as amended. In a run from a new table, when \<open>fetchAstModuleBySourceFile\<close>
  returns the Module Registry Entry \<open>m\<close> that it created for a local module, then, in the
  table it returns:
  every direct export of the module is resolved (its name is bound in \<open>exportedSymbols\<close> to
  the Symbol Node of its terminal identity, or to a node that the module it is re-exported
  from exports under the original name; it is left out only if its terminal identity is
  filtered out);
  the target of every wildcard re-export (an \<open>export * from\<close> declaration with a module
  specifier) is in the module cache as a Module Registry Entry and among
  \<open>starExportedModules\<close>;
  \<open>exportedSymbols\<close> binds the names of the direct exports only, so the names that the
  wildcard targets export are not copied: they are left to the lookup;
  and this holds recursively: no module reference dangles, and every Module Registry Entry
  of the table (so every wildcard target, the targets of the targets, and so on) is
  resolved in the same way.
  The exports of a module have distinct names (the compiler keeps them in a table keyed by
  name).
\<close>

theorem C3_module_resolved_eagerly:
  assumes "run P emptyTable t"
    and "fetchAstModuleBySourceFile fuel P sf spec t = Inr (m, t')"
    and "astModulesBySourceFile t sf = None"
    and "externalPackagePath P spec = None"
    and "getSymbolForDeclaration P sf = Some moduleSymbol"
    and "symbolExports P moduleSymbol = Some exports"
    and "exportNamesDistinct P"
  shows "(\<forall>e \<in> set exports. symbolEscapedName P e \<noteq> ExportStar \<longrightarrow>
            directExportResolved P t' m e)
         \<and> (\<forall>e \<in> set exports. symbolEscapedName P e = ExportStar \<longrightarrow>
              (\<forall>decl \<in> set (symbolDeclarations P e).
                 nodeKind P decl = ExportDeclaration
                 \<and> (\<exists>target. getModuleSpecifier P decl = Some target \<and> target \<noteq> [])
                 \<longrightarrow> wildcardTargetResolved P t' m decl))
         \<and> (\<forall>n. n \<notin> symbolName P ` set (directExports P exports) \<longrightarrow>
                exportedSymbols (astModules t' m) n = None)
         \<and> modulesWellFormed t'
         \<and> (\<forall>m' < nextAstModule t'. moduleResolved P t' m')"
proof -
  from fetchModule_created[OF assms(2,3,4)]
  have c: "m = nextAstModule t" "m < nextAstModule t'" "sourceFile (astModules t' m) = sf"
    "externalModulePath (astModules t' m) = None"
    by blast+
  have "run P emptyTable t'" using assms(1,2) by (rule run_fetchAstModule)
  from run_resolved[OF this assms(7)]
  have w: "modulesWellFormed t'" and all: "\<forall>m' < nextAstModule t'. moduleResolved P t' m'"
    by (simp_all add: resolvedSince_def)
  with c have "moduleResolved P t' m" by simp
  with c(3,4) assms(5,6) have r: "\<forall>e \<in> set exports. exportResolved P t' m e"
    and names: "\<forall>n. n \<notin> symbolName P ` set (directExports P exports) \<longrightarrow>
                  exportedSymbols (astModules t' m) n = None"
    by (simp_all add: moduleResolved_def)
  from r have direct: "\<forall>e \<in> set exports. symbolEscapedName P e \<noteq> ExportStar \<longrightarrow>
                         directExportResolved P t' m e"
    by (simp add: exportResolved_def)
  from r have stars: "\<forall>e \<in> set exports. symbolEscapedName P e = ExportStar \<longrightarrow>
              (\<forall>decl \<in> set (symbolDeclarations P e).
                 nodeKind P decl = ExportDeclaration
                 \<and> (\<exists>target. getModuleSpecifier P decl = Some target \<and> target \<noteq> [])
                 \<longrightarrow> wildcardTargetResolved P t' m decl)"
    by (auto simp: exportResolved_def wildcardsResolved_def)
  from direct stars names w all show ?thesis by blast
qed

text \<open>
  On the small program: after \<^verbatim>\<open>a.ts\<close> was resolved in a new table, its exports \<open>Foo\<close>
  (symbol 1), \<open>Y\<close> (the re-export 52 of \<open>X\<close> from \<^verbatim>\<open>b.ts\<close>) and \<open>Amb\<close> (symbol 5, ambient, left
  out) are resolved, and so is the target of its declaration 110 (\<^verbatim>\<open>export * from './b'\<close>).
  The name \<open>X\<close> that \<^verbatim>\<open>b.ts\<close> exports is not bound in the entry of \<^verbatim>\<open>a.ts\<close>; the lookup
  finds it over the wildcard re-export. The entry of \<^verbatim>\<open>b.ts\<close> is resolved as well.
\<close>

theorem C3_witness:
  "run exampleProgram emptyTable emptyTable
   \<and> fetchAstModuleBySourceFile 6 exampleProgram 100 None emptyTable = Inr (0, afterFetchModuleA)
   \<and> astModulesBySourceFile emptyTable 100 = None
   \<and> exportNamesDistinct exampleProgram
   \<and> directExportResolved exampleProgram afterFetchModuleA 0 1
   \<and> directExportResolved exampleProgram afterFetchModuleA 0 52
   \<and> directExportResolved exampleProgram afterFetchModuleA 0 5
   \<and> wildcardTargetResolved exampleProgram afterFetchModuleA 0 110
   \<and> exportedSymbols (astModules afterFetchModuleA 0) ''X'' = None
   \<and> getExportOfAstModule 6 afterFetchModuleA ''X'' 0 = Inr 0
   \<and> moduleResolved exampleProgram afterFetchModuleA (Suc 0)
   \<and> modulesWellFormed afterFetchModuleA"
proof -
  have h2: "astModulesBySourceFile emptyTable 100 = None" by (simp add: emptyTable_def)
  have h3: "externalPackagePath exampleProgram None = None" by (simp add: externalPackagePath_def)
  have h4: "getSymbolForDeclaration exampleProgram 100 = Some 50" by (simp add: exampleProgram_def)
  have h5: "symbolExports exampleProgram 50 = Some [51, 1, 52, 5]" by (simp add: exampleProgram_def)
  note C3 = C3_module_resolved_eagerly[OF run_start afterFetchModuleA_run h2 h3 h4 h5
      exampleProgram_distinct]
  have esc: "symbolEscapedName exampleProgram 51 = ExportStar"
    "symbolEscapedName exampleProgram 1 \<noteq> ExportStar"
    "symbolEscapedName exampleProgram 52 \<noteq> ExportStar"
    "symbolEscapedName exampleProgram 5 \<noteq> ExportStar"
    by (simp_all add: exampleProgram_def ExportStar_def)
  have star: "110 \<in> set (symbolDeclarations exampleProgram 51)"
    "nodeKind exampleProgram 110 = ExportDeclaration"
    "getModuleSpecifier exampleProgram 110 = Some ''./b''"
    by (simp_all add: exampleProgram_def)
  have x: "''X'' \<notin> symbolName exampleProgram ` set (directExports exampleProgram [51, 1, 52, 5])"
    by (simp add: directExports_def exampleProgram_def ExportStar_def)
  have d: "directExportResolved exampleProgram afterFetchModuleA 0 1"
    "directExportResolved exampleProgram afterFetchModuleA 0 52"
    "directExportResolved exampleProgram afterFetchModuleA 0 5"
    using C3 esc by simp_all
  have s: "wildcardTargetResolved exampleProgram afterFetchModuleA 0 110"
    using C3 esc(1) star by auto
  have nx: "exportedSymbols (astModules afterFetchModuleA 0) ''X'' = None"
    using C3 x by blast
  have b: "moduleResolved exampleProgram afterFetchModuleA (Suc 0)"
    using C3 by (simp add: afterFetchModuleA_modules)
  have w: "modulesWellFormed afterFetchModuleA" using C3 by blast
  have g: "getExportOfAstModule 6 afterFetchModuleA ''X'' 0 = Inr 0"
    by (simp add: getExportOfAstModule_def eval_nat_numeral afterFetchModuleA_modules
        afterFetchModuleA_exports nx)
  from run_start[of exampleProgram emptyTable] afterFetchModuleA_run h2 exampleProgram_distinct
    d s nx g b w
  show ?thesis by simp
qed

section \<open>The recursive pass of the analysis\<close>















end
